theory Spec2Isabelle
  imports Main
begin

section \<open>Python strings\<close>

text \<open>
  A Python \<^verbatim>\<open>str\<close> is a sequence of Unicode code points, so it is modelled as a list of
  natural numbers: slicing, \<^verbatim>\<open>len\<close> and \<^verbatim>\<open>strip\<close> count code points, as Python does.
  ASCII literals of the source are written \<open>ascii ''...''\<close>; the Chinese literals are
  given by their code points.
\<close>

type_synonym pystr = "nat list"

definition ascii :: "string \<Rightarrow> pystr" where
  "ascii s = map of_char s"

text \<open>\<^verbatim>\<open>s.startswith(p)\<close> and \<^verbatim>\<open>p in s\<close> (substring test).\<close>

definition startswith :: "pystr \<Rightarrow> pystr \<Rightarrow> bool" where
  "startswith s p = (take (length p) s = p)"

fun py_in :: "pystr \<Rightarrow> pystr \<Rightarrow> bool" where
  "py_in p [] = (p = [])"
| "py_in p (c # cs) = (startswith (c # cs) p \<or> py_in p cs)"

text \<open>
  \<^verbatim>\<open>str.strip()\<close> removes the characters for which \<^verbatim>\<open>str.isspace\<close> holds from both
  ends. The table is the one of CPython (\<^verbatim>\<open>_PyUnicode_IsWhitespace\<close>).
\<close>

definition isspace :: "nat \<Rightarrow> bool" where
  "isspace c = (c \<in> set [0x9, 0xA, 0xB, 0xC, 0xD, 0x1C, 0x1D, 0x1E, 0x1F, 0x20, 0x85, 0xA0,
      0x1680, 0x2000, 0x2001, 0x2002, 0x2003, 0x2004, 0x2005, 0x2006, 0x2007, 0x2008,
      0x2009, 0x200A, 0x2028, 0x2029, 0x202F, 0x205F, 0x3000])"

definition lstrip :: "pystr \<Rightarrow> pystr" where
  "lstrip s = dropWhile isspace s"

definition rstrip :: "pystr \<Rightarrow> pystr" where
  "rstrip s = rev (dropWhile isspace (rev s))"

definition strip :: "pystr \<Rightarrow> pystr" where
  "strip s = rstrip (lstrip s)"

text \<open>
  \<^verbatim>\<open>str.lower()\<close>, on the ASCII letters. The source uses it only in the test
  \<^verbatim>\<open>"password" in error_msg.lower()\<close>; Python's case mapping sends no character outside
  ASCII to one of the letters of that word, so the test is the same.
\<close>

definition lower_char :: "nat \<Rightarrow> nat" where
  "lower_char c = (if 65 \<le> c \<and> c \<le> 90 then c + 32 else c)"

definition lower :: "pystr \<Rightarrow> pystr" where
  "lower s = map lower_char s"

text \<open>\<^verbatim>\<open>str(n)\<close> for a non-negative integer: its decimal digits.\<close>

fun str_nat :: "nat \<Rightarrow> pystr" where
  "str_nat n = (if n < 10 then [48 + n] else str_nat (n div 10) @ [48 + n mod 10])"

declare str_nat.simps [simp del]

text \<open>\<^verbatim>\<open>sep.join(xs)\<close>.\<close>

fun str_join :: "pystr \<Rightarrow> pystr list \<Rightarrow> pystr" where
  "str_join sep [] = []"
| "str_join sep [x] = x"
| "str_join sep (x # y # ys) = x @ sep @ str_join sep (y # ys)"

section \<open>The rename policy\<close>

text \<open>
  \<^verbatim>\<open>os.path.splitext\<close>. The program drives Excel through COM, so \<^verbatim>\<open>os.path\<close> is
  \<^verbatim>\<open>ntpath\<close>: the separators are the backslash (92) and the slash (47), the extension
  separator is the dot (46). The model follows \<^verbatim>\<open>genericpath._splitext\<close>:
  \<^verbatim>\<open>
  sepIndex = p.rfind(sep)
  if altsep:
      altsepIndex = p.rfind(altsep)
      sepIndex = max(sepIndex, altsepIndex)
  dotIndex = p.rfind(extsep)
  if dotIndex > sepIndex:
      # skip all leading dots
      filenameIndex = sepIndex + 1
      while filenameIndex < dotIndex:
          if p[filenameIndex:filenameIndex+1] != extsep:
              return p[:dotIndex], p[dotIndex:]
          filenameIndex += 1
  return p, p[:0]
  \<close>
\<close>

definition sep :: nat where "sep = 92"
definition altsep :: nat where "altsep = 47"
definition extsep :: nat where "extsep = 46"

text \<open>\<^verbatim>\<open>p.rfind(c)\<close> for a single character: the highest index of \<open>c\<close>, or \<open>-1\<close>.\<close>

primrec rfind_from :: "nat \<Rightarrow> pystr \<Rightarrow> nat \<Rightarrow> int \<Rightarrow> int" where
  "rfind_from c [] i found = found"
| "rfind_from c (x # xs) i found = rfind_from c xs (Suc i) (if x = c then int i else found)"

definition rfind :: "pystr \<Rightarrow> nat \<Rightarrow> int" where
  "rfind p c = rfind_from c p 0 (- 1)"

text \<open>The \<^verbatim>\<open>while\<close> loop: is there a character other than the dot in \<open>p[fi:di]\<close>?\<close>

function has_stem :: "pystr \<Rightarrow> nat \<Rightarrow> nat \<Rightarrow> bool" where
  "has_stem p fi di =
     (if fi < di then (if take 1 (drop fi p) \<noteq> [extsep] then True else has_stem p (Suc fi) di)
      else False)"
  by pat_completeness auto
termination
  by (relation "measure (\<lambda>(p, fi, di). di - fi)") auto

declare has_stem.simps [simp del]

definition splitext :: "pystr \<Rightarrow> pystr \<times> pystr" where
  "splitext p =
     (let sepIndex = max (rfind p sep) (rfind p altsep);
          dotIndex = rfind p extsep
      in if dotIndex > sepIndex \<and> has_stem p (nat (sepIndex + 1)) (nat dotIndex)
         then (take (nat dotIndex) p, drop (nat dotIndex) p)
         else (p, []))"

text \<open>
  The body of the loop of \<^verbatim>\<open>preview_new_filenames\<close>, for one file name; \<open>suffix\<close> is
  the local variable of that name, that is the text of the suffix field after
  \<^verbatim>\<open>.strip()\<close>:
  \<^verbatim>\<open>
  name, ext = os.path.splitext(filename)
  if suffix:
      new_filename = f"{name}{suffix}{ext}"
  else:
      new_filename = filename
  \<close>
\<close>

definition rename :: "pystr \<Rightarrow> pystr \<Rightarrow> pystr" where
  "rename fname suffix =
     (let (name, ext) = splitext fname
      in if suffix \<noteq> [] then name @ suffix @ ext else fname)"

section \<open>The texts of the source\<close>

text \<open>The string literals of the source that are not ASCII, as code points.\<close>

definition txt_cancelled :: pystr where \<comment> \<open>processing cancelled (run)\<close>
  "txt_cancelled = [22788, 29702, 24050, 21462, 28040]"

definition txt_arrow :: pystr where \<comment> \<open>arrow between the old and the new name (run)\<close>
  "txt_arrow = [32, 8594, 32]"

definition txt_error_prefix :: pystr where \<comment> \<open>error: (run)\<close>
  "txt_error_prefix = [38169, 35823, 58, 32]"

definition txt_processing_exception :: pystr where \<comment> \<open>processing exception (run)\<close>
  "txt_processing_exception = [22788, 29702, 24322, 24120]"

definition txt_processing_failed :: pystr where \<comment> \<open>processing failed (run)\<close>
  "txt_processing_failed = [58, 32, 22788, 29702, 22833, 36133, 32, 45, 32]"

definition txt_thread_error :: pystr where \<comment> \<open>thread error: (run)\<close>
  "txt_thread_error = [32447, 31243, 38169, 35823, 58, 32]"

definition txt_password_not_set :: pystr where \<comment> \<open>no password set (encrypt_file)\<close>
  "txt_password_not_set = [26410, 35774, 32622, 23494, 30721]"

definition txt_password_empty :: pystr where \<comment> \<open>password is empty (encrypt_file)\<close>
  "txt_password_empty = [23494, 30721, 20026, 31354]"

definition txt_input_missing :: pystr where \<comment> \<open>input file does not exist (encrypt_file, decrypt_file)\<close>
  "txt_input_missing = [36755, 20837, 25991, 20214, 19981, 23384, 22312]"

definition txt_path_error :: pystr where \<comment> \<open>wrong file path (encrypt_file, decrypt_file)\<close>
  "txt_path_error = [25991, 20214, 36335, 24452, 38169, 35823]"

definition txt_encrypt_ok :: pystr where \<comment> \<open>encrypted (encrypt_file)\<close>
  "txt_encrypt_ok = [21152, 23494, 25104, 21151]"

definition txt_save_failed :: pystr where \<comment> \<open>save failed (encrypt_file, decrypt_file)\<close>
  "txt_save_failed = [20445, 23384, 22833, 36133]"

definition txt_file_not_created :: pystr where \<comment> \<open>file not created (encrypt_file, decrypt_file)\<close>
  "txt_file_not_created = [25991, 20214, 26410, 21019, 24314]"

definition txt_password :: pystr where \<comment> \<open>the word for password (encrypt_file, decrypt_file)\<close>
  "txt_password = [23494, 30721]"

definition txt_password_set_error :: pystr where \<comment> \<open>error setting the password (encrypt_file)\<close>
  "txt_password_set_error = [23494, 30721, 35774, 32622, 38169, 35823]"

definition txt_password_set_failed :: pystr where \<comment> \<open>setting the password failed (encrypt_file)\<close>
  "txt_password_set_failed = [23494, 30721, 35774, 32622, 22833, 36133]"

definition txt_encrypt_failed :: pystr where \<comment> \<open>encryption failed: (encrypt_file)\<close>
  "txt_encrypt_failed = [21152, 23494, 22833, 36133, 58, 32]"

definition txt_encrypt_exception :: pystr where \<comment> \<open>encryption exception (encrypt_file)\<close>
  "txt_encrypt_exception = [21152, 23494, 24322, 24120]"

definition txt_system_error :: pystr where \<comment> \<open>system error (encrypt_file, decrypt_file)\<close>
  "txt_system_error = [31995, 32479, 38169, 35823]"

definition txt_wrong_password :: pystr where \<comment> \<open>wrong password or password mismatch (decrypt_file)\<close>
  "txt_wrong_password = [23494, 30721, 38169, 35823, 25110, 23494, 30721, 19981, 21305, 37197]"

definition txt_password_incorrect :: pystr where \<comment> \<open>password incorrect (decrypt_file)\<close>
  "txt_password_incorrect = [23494, 30721, 19981, 27491, 30830]"

definition txt_cannot_open :: pystr where \<comment> \<open>cannot open file: (decrypt_file)\<close>
  "txt_cannot_open = [26080, 27861, 25171, 24320, 25991, 20214, 58, 32]"

definition txt_open_failed :: pystr where \<comment> \<open>open failed (decrypt_file)\<close>
  "txt_open_failed = [25171, 24320, 22833, 36133]"

definition txt_decrypt_ok :: pystr where \<comment> \<open>decrypted (decrypt_file)\<close>
  "txt_decrypt_ok = [35299, 23494, 25104, 21151]"

definition txt_save_failed_colon :: pystr where \<comment> \<open>save failed: (decrypt_file)\<close>
  "txt_save_failed_colon = [20445, 23384, 22833, 36133, 58, 32]"

definition txt_save_error :: pystr where \<comment> \<open>save error (decrypt_file)\<close>
  "txt_save_error = [20445, 23384, 38169, 35823]"

definition txt_decrypt_failed :: pystr where \<comment> \<open>decryption failed: (decrypt_file)\<close>
  "txt_decrypt_failed = [35299, 23494, 22833, 36133, 58, 32]"

definition txt_select_one_file :: pystr where \<comment> \<open>select at least one file (validate_selection)\<close>
  "txt_select_one_file = [35831, 33267, 23569, 36873, 25321, 19968, 20010, 25991, 20214,
     65281]"

definition txt_set_output_folder :: pystr where \<comment> \<open>set the output folder (validate_selection)\<close>
  "txt_set_output_folder = [35831, 35774, 32622, 36755, 20986, 25991, 20214, 22841, 65281]"

definition txt_cannot_create_output :: pystr where \<comment> \<open>cannot create the output folder: (validate_selection)\<close>
  "txt_cannot_create_output = [26080, 27861, 21019, 24314, 36755, 20986, 25991, 20214, 22841,
     58, 32]"

definition txt_and_more :: pystr where \<comment> \<open>... and others, in all (validate_selection)\<close>
  "txt_and_more = [10, 46, 46, 46, 31561, 32]"

definition txt_files_unit :: pystr where \<comment> \<open>files (validate_selection, load_password_book)\<close>
  "txt_files_unit = [32, 20010, 25991, 20214]"

definition txt_files_without_password :: pystr where \<comment> \<open>these files have no password: (validate_selection)\<close>
  "txt_files_without_password = [20197, 19979, 25991, 20214, 27809, 26377, 35774, 32622, 23494,
     30721, 65306, 10]"

definition txt_warning_title :: pystr where \<comment> \<open>warning (start_processing, load_password_book)\<close>
  "txt_warning_title = [35686, 21578]"

definition txt_busy :: pystr where \<comment> \<open>processing is under way (start_processing)\<close>
  "txt_busy = [22788, 29702, 27491, 22312, 36827, 34892, 20013, 65292, 35831, 31561, 24453,
     23436, 25104, 25110, 21462, 28040, 65281]"

definition txt_invalid_input_folder :: pystr where \<comment> \<open>choose a valid input folder (start_processing)\<close>
  "txt_invalid_input_folder = [35831, 36873, 25321, 26377, 25928, 30340, 36755, 20837, 25991,
     20214, 22841, 65281]"

definition txt_encrypt :: pystr where \<comment> \<open>encrypt (start_processing)\<close>
  "txt_encrypt = [21152, 23494]"

definition txt_decrypt :: pystr where \<comment> \<open>decrypt (start_processing)\<close>
  "txt_decrypt = [35299, 23494]"

definition txt_confirm_start :: pystr where \<comment> \<open>really start the batch (start_processing)\<close>
  "txt_confirm_start = [30830, 23450, 35201, 24320, 22987, 25209, 37327]"

definition txt_confirm_q :: pystr where \<comment> \<open>question mark and blank line (start_processing)\<close>
  "txt_confirm_q = [21527, 65311, 10, 10]"

definition txt_file_count :: pystr where \<comment> \<open>number of files: (start_processing)\<close>
  "txt_file_count = [22788, 29702, 25991, 20214, 25968, 58, 32]"

definition txt_input_folder :: pystr where \<comment> \<open>input folder: (start_processing)\<close>
  "txt_input_folder = [36755, 20837, 25991, 20214, 22841, 58, 32]"

definition txt_output_folder :: pystr where \<comment> \<open>output folder: (start_processing)\<close>
  "txt_output_folder = [36755, 20986, 25991, 20214, 22841, 58, 32]"

definition txt_suffix :: pystr where \<comment> \<open>file name suffix: (start_processing)\<close>
  "txt_suffix = [25991, 20214, 21517, 21518, 32512, 58, 32]"

definition txt_originals_untouched :: pystr where \<comment> \<open>important: the original files are not modified, the processed files are saved to the output folder (start_processing)\<close>
  "txt_originals_untouched = [10, 37325, 35201, 65306, 21407, 25991, 20214, 19981, 20250,
     34987, 20462, 25913, 65292, 22788, 29702, 21518, 30340, 25991, 20214, 23558, 20445, 23384,
     21040, 36755, 20986, 25991, 20214, 22841, 65281]"

definition txt_confirm_title :: pystr where \<comment> \<open>confirm start (start_processing)\<close>
  "txt_confirm_title = [30830, 35748, 24320, 22987]"

definition txt_choose_book :: pystr where \<comment> \<open>choose a valid password book first (load_password_book)\<close>
  "txt_choose_book = [35831, 20808, 36873, 25321, 26377, 25928, 30340, 23494, 30721, 26412,
     25991, 20214, 65281]"

definition txt_using_encoding :: pystr where \<comment> \<open>using encoding (load_password_book)\<close>
  "txt_using_encoding = [20351, 29992, 32534, 30721, 32]"

definition txt_read_ok :: pystr where \<comment> \<open>read, in all (load_password_book)\<close>
  "txt_read_ok = [32, 35835, 21462, 25104, 21151, 65292, 20849, 32]"

definition txt_records :: pystr where \<comment> \<open>records (load_password_book)\<close>
  "txt_records = [32, 26465, 35760, 24405]"

definition txt_encoding :: pystr where \<comment> \<open>encoding (load_password_book)\<close>
  "txt_encoding = [32534, 30721, 32]"

definition txt_read_failed :: pystr where \<comment> \<open>could not be read: (load_password_book)\<close>
  "txt_read_failed = [32, 35835, 21462, 22833, 36133, 58, 32]"

definition txt_cannot_decode :: pystr where \<comment> \<open>cannot decode the CSV file (load_password_book)\<close>
  "txt_cannot_decode = [26080, 27861, 35299, 30721, 67, 83, 86, 25991, 20214, 65292, 35831,
     26816, 26597, 25991, 20214, 32534, 30721, 25110, 26684, 24335]"

definition txt_auto_matched :: pystr where \<comment> \<open>automatic matching done, matched (load_password_book)\<close>
  "txt_auto_matched = [33258, 21160, 21305, 37197, 23436, 25104, 65292, 25104, 21151, 21305,
     37197, 32]"

definition txt_load_failed :: pystr where \<comment> \<open>loading the password book failed: (load_password_book)\<close>
  "txt_load_failed = [21152, 36733, 23494, 30721, 26412, 22833, 36133, 58, 32]"

definition txt_load_failed_nl :: pystr where \<comment> \<open>loading the password book failed (dialog) (load_password_book)\<close>
  "txt_load_failed_nl = [21152, 36733, 23494, 30721, 26412, 22833, 36133, 58, 10]"

definition txt_format_help :: pystr where \<comment> \<open>the format of the CSV file (load_password_book)\<close>
  "txt_format_help = [10, 10, 35831, 30830, 20445, 67, 83, 86, 25991, 20214, 26684, 24335,
     27491, 30830, 65306, 10, 49, 46, 32, 20351, 29992, 85, 84, 70, 45, 56, 25110, 71, 66, 75,
     32534, 30721, 10, 50, 46, 32, 31532, 19968, 21015, 26159, 25991, 20214, 21517, 65292,
     31532, 20108, 21015, 26159, 23494, 30721, 10, 51, 46, 32, 20351, 29992, 36887, 21495,
     25110, 21046, 34920, 31526, 20998, 38548]"

definition txt_error_title :: pystr where \<comment> \<open>error (load_password_book)\<close>
  "txt_error_title = [38169, 35823]"

definition txt_from_book :: pystr where \<comment> \<open>from the password book (match_passwords_from_book)\<close>
  "txt_from_book = [26469, 33258, 23494, 30721, 26412]"

section \<open>Exceptions, events and the outside world\<close>

text \<open>
  An exception is a value. The source tells \<^verbatim>\<open>UnicodeDecodeError\<close> from the other
  subclasses of \<^verbatim>\<open>Exception\<close> (in \<^verbatim>\<open>load_password_book\<close>) and otherwise uses only
  \<^verbatim>\<open>str(e)\<close>, the argument of the constructor.
\<close>

datatype exn = UnicodeDecodeError pystr | OtherError pystr

fun str_exn :: "exn \<Rightarrow> pystr" where
  "str_exn (UnicodeDecodeError m) = m"
| "str_exn (OtherError m) = m"

text \<open>
  The dictionaries with fixed keys: an entry of \<^verbatim>\<open>file_list\<close>, an entry of
  \<^verbatim>\<open>results['failed_files']\<close> (its keys are \<^verbatim>\<open>'filename'\<close> and \<^verbatim>\<open>'error'\<close>) and
  \<^verbatim>\<open>results\<close>.
\<close>

record file_info =
  filename :: pystr
  new_filename :: pystr
  password :: pystr
  "notes" :: pystr

record failure =
  failed_filename :: pystr
  error :: pystr

record results =
  success_count :: nat
  total_count :: nat
  failed_files :: "failure list"

text \<open>
  Everything the program does to the outside is an event: the calls to COM and Excel, the
  calls of \<^verbatim>\<open>os\<close> that change the file system, the Qt signals of the worker thread and
  the dialogs and log lines of the window. A run is modelled by the list of events it
  adds to the history, in the order of the source.
\<close>

datatype event =
    CoInitialize
  | CoUninitialize
  | Dispatch                              \<comment> \<open>\<^verbatim>\<open>win32com.client.Dispatch("Excel.Application")\<close>\<close>
  | ExcelSet string "bool + int"          \<comment> \<open>\<^verbatim>\<open>excel.<property> = value\<close>\<close>
  | ExcelQuit                             \<comment> \<open>\<^verbatim>\<open>excel.Quit()\<close>\<close>
  | WorkbooksOpen pystr "pystr option"    \<comment> \<open>\<^verbatim>\<open>excel.Workbooks.Open\<close>, without or with a password\<close>
  | SetPassword pystr                     \<comment> \<open>\<^verbatim>\<open>wb.Password = ...\<close>\<close>
  | SetWritePassword pystr                \<comment> \<open>\<^verbatim>\<open>wb.WritePassword = ...\<close>\<close>
  | SaveAs pystr                          \<comment> \<open>\<^verbatim>\<open>wb.SaveAs(path)\<close>\<close>
  | WbClose                               \<comment> \<open>\<^verbatim>\<open>wb.Close(SaveChanges=False)\<close>\<close>
  | OsRemove pystr
  | OsMakedirs pystr                      \<comment> \<open>\<^verbatim>\<open>os.makedirs(path, exist_ok=True)\<close>\<close>
  | ProgressSignal nat nat
  | LogSignal pystr pystr
  | FileStatusSignal pystr pystr bool pystr
  | FinishedSignal results
  | Print pystr
  | LogMessage pystr pystr                \<comment> \<open>\<^verbatim>\<open>self.log_message(message, message_type)\<close>\<close>
  | MessageBoxWarning pystr pystr
  | MessageBoxCritical pystr pystr
  | MessageBoxQuestion pystr pystr

text \<open>
  A file opened in text mode under one encoding: what \<^verbatim>\<open>f.readline()\<close> gives, and the
  rows that \<^verbatim>\<open>csv.reader(f, delimiter=d)\<close> yields after \<^verbatim>\<open>f.seek(0)\<close>, together with the
  exception that ends the iteration, if one does. Python decodes the file in chunks
  while it is read, so a \<^verbatim>\<open>UnicodeDecodeError\<close> can come after rows have been yielded.
\<close>

record text_file =
  readline :: "exn + pystr"
  csv_reader :: "pystr \<Rightarrow> pystr list list \<times> exn option"

text \<open>
  The outside world answers the calls. Each answer may depend on the history, that is on
  every event so far. \<open>raises W h ev\<close> is the exception, if any, with which the call \<open>ev\<close>
  fails after history \<open>h\<close>; \<open>cancel_requested W h\<close> is the value of the thread's flag
  \<^verbatim>\<open>is_cancelled\<close>, which the window sets from another thread; \<open>user_confirms W h\<close> is
  the answer to the confirmation dialog. The functions of \<^verbatim>\<open>os.path\<close> on names are
  parameters as well.
\<close>

record world =
  path_exists :: "event list \<Rightarrow> pystr \<Rightarrow> bool"
  listdir :: "event list \<Rightarrow> pystr \<Rightarrow> exn + pystr list"
  open_text :: "event list \<Rightarrow> pystr \<Rightarrow> pystr \<Rightarrow> exn + text_file"
  raises :: "event list \<Rightarrow> event \<Rightarrow> exn option"
  cancel_requested :: "event list \<Rightarrow> bool"
  user_confirms :: "event list \<Rightarrow> bool"
  abspath :: "pystr \<Rightarrow> pystr"
  path_join :: "pystr \<Rightarrow> pystr \<Rightarrow> pystr"
  dirname :: "pystr \<Rightarrow> pystr"
  format_exc :: "exn \<Rightarrow> pystr"

text \<open>One call: it is recorded, and it may raise.\<close>

definition call :: "world \<Rightarrow> event \<Rightarrow> event list \<Rightarrow> exn option \<times> event list" where
  "call W ev h = (raises W h ev, h @ [ev])"

text \<open>Consecutive calls: the first exception ends the sequence.\<close>

fun calls :: "world \<Rightarrow> event list \<Rightarrow> event list \<Rightarrow> exn option \<times> event list" where
  "calls W [] h = (None, h)"
| "calls W (ev # evs) h =
     (case call W ev h of
        (Some e, h') \<Rightarrow> (Some e, h')
      | (None, h') \<Rightarrow> calls W evs h')"

section \<open>The password book\<close>

text \<open>
  \<^verbatim>\<open>self.password_dict\<close>, and the body of \<^verbatim>\<open>for row in reader\<close> in \<^verbatim>\<open>load_password_book\<close>:
  \<^verbatim>\<open>
  if not row or (len(row) > 0 and str(row[0]).strip().startswith('#')):
      continue
  if len(row) >= 2:
      filename = str(row[0]).strip()
      password = str(row[1]).strip()
      if filename:
          self.password_dict[filename] = password
          row_count += 1
  \<close>
\<close>

type_synonym password_dict = "pystr \<rightharpoonup> pystr"

definition read_row :: "pystr list \<Rightarrow> password_dict \<times> nat \<Rightarrow> password_dict \<times> nat" where
  "read_row row st =
     (case st of (d, row_count) \<Rightarrow>
        if row = [] \<or> (length row > 0 \<and> startswith (strip (row ! 0)) (ascii ''#'')) then st
        else if length row \<ge> 2 then
          (let fname = strip (row ! 0);
               pwd = strip (row ! 1)
           in if fname \<noteq> [] then (d(fname \<mapsto> pwd), row_count + 1) else st)
        else st)"

definition read_rows :: "pystr list list \<Rightarrow> password_dict \<times> nat \<Rightarrow> password_dict \<times> nat" where
  "read_rows rows st = fold read_row rows st"

text \<open>
  The body of the \<^verbatim>\<open>with\<close> block for one opened file: the delimiter is the tab (9) if
  the first line has one, else the comma; the rows yielded before an exception have been
  stored when it is raised.
\<close>

definition read_book :: "text_file \<Rightarrow> password_dict \<times> nat \<Rightarrow> (password_dict \<times> nat) \<times> exn option" where
  "read_book f st =
     (case readline f of
        Inl e \<Rightarrow> (st, Some e)
      | Inr first_line \<Rightarrow>
          (let delimiter = (if py_in [9] first_line then [9] else ascii '','')
           in case csv_reader f delimiter of (rows, stop) \<Rightarrow> (read_rows rows st, stop)))"

definition encodings :: "pystr list" where
  "encodings = [ascii ''utf-8-sig'', ascii ''utf-8'', ascii ''gbk'', ascii ''gb2312'',
     ascii ''latin1'', ascii ''cp936'']"

text \<open>
  One attempt: \<^verbatim>\<open>open(password_book_path, 'r', encoding=encoding, newline='')\<close> and the
  \<^verbatim>\<open>with\<close> block.
\<close>

definition attempt ::
  "world \<Rightarrow> event list \<Rightarrow> pystr \<Rightarrow> pystr \<Rightarrow> password_dict \<times> nat \<Rightarrow> (password_dict \<times> nat) \<times> exn option" where
  "attempt W h path encoding st =
     (case open_text W h path encoding of
        Inl e \<Rightarrow> (st, Some e)
      | Inr f \<Rightarrow> read_book f st)"

text \<open>
  The loop \<^verbatim>\<open>for encoding in encodings: ... else: raise Exception(...)\<close>. The state is
  \<^verbatim>\<open>self.password_dict\<close>, \<^verbatim>\<open>row_count\<close> (both set before the loop, once) and the
  history. The result says whether the loop left by \<^verbatim>\<open>break\<close> (\<open>None\<close>) or by the
  \<^verbatim>\<open>raise\<close> of its \<^verbatim>\<open>else\<close> branch.
\<close>

fun try_encodings ::
  "world \<Rightarrow> pystr \<Rightarrow> pystr list \<Rightarrow> (password_dict \<times> nat) \<times> event list
     \<Rightarrow> exn option \<times> (password_dict \<times> nat) \<times> event list" where
  "try_encodings W path [] (st, h) = (Some (OtherError txt_cannot_decode), st, h)"
| "try_encodings W path (encoding # rest) (st, h) =
     (case attempt W h path encoding st of
        (st', None) \<Rightarrow>
          (None, st',
           h @ [LogMessage (txt_using_encoding @ encoding @ txt_read_ok @ str_nat (snd st') @ txt_records)
                  (ascii ''success'')])
      | (st', Some (UnicodeDecodeError m)) \<Rightarrow> try_encodings W path rest (st', h)
      | (st', Some (OtherError m)) \<Rightarrow>
          try_encodings W path rest
            (st', h @ [LogMessage (txt_encoding @ encoding @ txt_read_failed @ m) (ascii ''warning'')]))"

section \<open>The worker thread\<close>

text \<open>
  The attributes of \<^verbatim>\<open>ProcessingThread\<close>. The flag \<^verbatim>\<open>is_cancelled\<close> is written by the
  window's thread while \<^verbatim>\<open>run\<close> reads it, so it is read from the world.
\<close>

record processing_thread =
  input_path :: pystr
  output_path :: pystr
  file_list :: "file_info list"
  is_encrypt :: bool

definition ProcessingThread ::
  "world \<Rightarrow> pystr \<Rightarrow> pystr \<Rightarrow> file_info list \<Rightarrow> bool \<Rightarrow> processing_thread" where
  "ProcessingThread W inp outp files enc =
     \<lparr>input_path = abspath W inp, output_path = abspath W outp, file_list = files, is_encrypt = enc\<rparr>"

subsection \<open>\<^verbatim>\<open>clean_temp_files\<close>\<close>

text \<open>
  \<^verbatim>\<open>
  for f in os.listdir(self.input_path):
      if f.startswith('~$'):
          try:
              os.remove(os.path.join(self.input_path, f))
          except:
              pass
  \<close>
  \<^verbatim>\<open>os.listdir\<close> is outside the \<^verbatim>\<open>try\<close>: its exception leaves the function.
\<close>

fun remove_temp_files :: "world \<Rightarrow> pystr \<Rightarrow> pystr list \<Rightarrow> event list \<Rightarrow> event list" where
  "remove_temp_files W inp [] h = h"
| "remove_temp_files W inp (f # fs) h =
     (if startswith f (ascii ''~$'')
      then remove_temp_files W inp fs (snd (call W (OsRemove (path_join W inp f)) h))
      else remove_temp_files W inp fs h)"

definition clean_temp_files :: "world \<Rightarrow> processing_thread \<Rightarrow> event list \<Rightarrow> exn option \<times> event list" where
  "clean_temp_files W th h =
     (case listdir W h (input_path th) of
        Inl e \<Rightarrow> (Some e, h)
      | Inr fs \<Rightarrow> (None, remove_temp_files W (input_path th) fs h))"

subsection \<open>\<^verbatim>\<open>encrypt_file\<close> and \<^verbatim>\<open>decrypt_file\<close>\<close>

text \<open>The triple that both functions return: success, status text, notes.\<close>

type_synonym result = "bool \<times> pystr \<times> pystr"

text \<open>
  The test of both functions on the text of an exception:
  \<^verbatim>\<open>"password" in error_msg.lower() or <txt_password> in error_msg\<close>, where the
  second literal is the Chinese word for password.
\<close>

definition mentions_password :: "pystr \<Rightarrow> bool" where
  "mentions_password error_msg =
     (py_in (ascii ''password'') (lower error_msg) \<or> py_in txt_password error_msg)"

text \<open>
  \<^verbatim>\<open>if not os.path.exists(output_dir): os.makedirs(output_dir, exist_ok=True)\<close>, which
  both functions run outside their inner \<^verbatim>\<open>try\<close>.
\<close>

definition ensure_output_dir :: "world \<Rightarrow> pystr \<Rightarrow> event list \<Rightarrow> exn option \<times> event list" where
  "ensure_output_dir W output_filepath h =
     (let output_dir = dirname W output_filepath
      in if \<not> path_exists W h output_dir then call W (OsMakedirs output_dir) h else (None, h))"

text \<open>
  The \<^verbatim>\<open>finally\<close> clause of both functions: \<^verbatim>\<open>wb\<close> is set once \<^verbatim>\<open>Workbooks.Open\<close>
  has returned, and an exception of \<^verbatim>\<open>wb.Close\<close> is swallowed.
\<close>

definition close_workbook :: "world \<Rightarrow> bool \<Rightarrow> event list \<Rightarrow> event list" where
  "close_workbook W wb h = (if wb then snd (call W WbClose h) else h)"

text \<open>
  The inner \<^verbatim>\<open>try\<close> block of \<^verbatim>\<open>encrypt_file\<close>: the value returned or the exception
  raised, whether \<^verbatim>\<open>wb\<close> is set, and the history.
\<close>

definition encrypt_try ::
  "world \<Rightarrow> pystr \<Rightarrow> pystr \<Rightarrow> pystr \<Rightarrow> pystr \<Rightarrow> event list \<Rightarrow> (exn + result) \<times> bool \<times> event list" where
  "encrypt_try W input_filepath output_filepath pwd nts h =
     (case call W (WorkbooksOpen input_filepath None) h of
        (Some e, h1) \<Rightarrow> (Inl e, False, h1)
      | (None, h1) \<Rightarrow>
          (case calls W [SetPassword pwd, SetWritePassword pwd, SaveAs output_filepath] h1 of
             (Some e, h2) \<Rightarrow> (Inl e, True, h2)
           | (None, h2) \<Rightarrow>
               (if path_exists W h2 output_filepath
                then (Inr (True, txt_encrypt_ok, nts), True, h2)
                else (Inr (False, txt_save_failed, txt_file_not_created), True, h2))))"

definition encrypt_file ::
  "world \<Rightarrow> pystr \<Rightarrow> pystr \<Rightarrow> pystr \<Rightarrow> pystr \<Rightarrow> pystr \<Rightarrow> event list \<Rightarrow> result \<times> event list" where
  "encrypt_file W fname input_filepath output_filepath pwd nts h =
     (if pwd = [] then ((False, txt_password_not_set, txt_password_empty), h)
      else if \<not> path_exists W h input_filepath then ((False, txt_input_missing, txt_path_error), h)
      else
        (case ensure_output_dir W output_filepath h of
           (Some e, h1) \<Rightarrow> ((False, txt_encrypt_failed @ take 50 (str_exn e), txt_system_error), h1)
         | (None, h1) \<Rightarrow>
             (case encrypt_try W input_filepath output_filepath pwd nts h1 of
                (r, wb, h2) \<Rightarrow>
                  (case r of
                     Inr res \<Rightarrow> res
                   | Inl e \<Rightarrow>
                       (if mentions_password (str_exn e)
                        then (False, txt_password_set_error, txt_password_set_failed)
                        else (False, txt_encrypt_failed @ take 50 (str_exn e), txt_encrypt_exception)),
                   close_workbook W wb h2))))"

text \<open>
  \<^verbatim>\<open>decrypt_file\<close>. After the open, the passwords are cleared inside
  \<^verbatim>\<open>try: ... except: pass\<close>; the save block removes a file already at the output path
  (an exception of \<^verbatim>\<open>os.remove\<close> is swallowed), saves and tests that the file is there.
\<close>

definition decrypt_save :: "world \<Rightarrow> pystr \<Rightarrow> pystr \<Rightarrow> event list \<Rightarrow> result \<times> event list" where
  "decrypt_save W output_filepath nts h =
     (let h1 = (if path_exists W h output_filepath then snd (call W (OsRemove output_filepath) h) else h)
      in case call W (SaveAs output_filepath) h1 of
           (Some e, h2) \<Rightarrow> ((False, txt_save_failed_colon @ str_exn e, txt_save_error), h2)
         | (None, h2) \<Rightarrow>
             (if path_exists W h2 output_filepath
              then ((True, txt_decrypt_ok, nts), h2)
              else ((False, txt_save_failed, txt_file_not_created), h2)))"

definition decrypt_file ::
  "world \<Rightarrow> pystr \<Rightarrow> pystr \<Rightarrow> pystr \<Rightarrow> pystr \<Rightarrow> pystr \<Rightarrow> event list \<Rightarrow> result \<times> event list" where
  "decrypt_file W fname input_filepath output_filepath pwd nts h =
     (if \<not> path_exists W h input_filepath then ((False, txt_input_missing, txt_path_error), h)
      else
        (case ensure_output_dir W output_filepath h of
           (Some e, h1) \<Rightarrow> ((False, txt_decrypt_failed @ take 50 (str_exn e), txt_system_error), h1)
         | (None, h1) \<Rightarrow>
             (case call W (WorkbooksOpen input_filepath (if pwd \<noteq> [] then Some pwd else None)) h1 of
                (Some open_error, h2) \<Rightarrow>
                  (if mentions_password (str_exn open_error)
                   then ((False, txt_wrong_password, txt_password_incorrect), h2)
                   else ((False, txt_cannot_open @ take 50 (str_exn open_error), txt_open_failed), h2))
              | (None, h2) \<Rightarrow>
                  (let h3 = snd (calls W [SetPassword [], SetWritePassword []] h2)
                   in case decrypt_save W output_filepath nts h3 of
                        (res, h4) \<Rightarrow> (res, close_workbook W True h4)))))"

subsection \<open>\<^verbatim>\<open>run\<close>\<close>

text \<open>
  The operation on one file, as \<^verbatim>\<open>run\<close> calls it: name, input path, output path,
  password, notes. \<^verbatim>\<open>run\<close> wraps the call in \<^verbatim>\<open>try ... except Exception\<close>, so an
  operation returns a triple or raises. \<^verbatim>\<open>encrypt_file\<close> and \<^verbatim>\<open>decrypt_file\<close> catch
  every exception themselves and always return.
\<close>

type_synonym file_op =
  "pystr \<Rightarrow> pystr \<Rightarrow> pystr \<Rightarrow> pystr \<Rightarrow> pystr \<Rightarrow> event list \<Rightarrow> (exn + result) \<times> event list"

definition file_operation :: "world \<Rightarrow> bool \<Rightarrow> file_op" where
  "file_operation W enc fname input_filepath output_filepath pwd nts h =
     (case (if enc then encrypt_file W fname input_filepath output_filepath pwd nts h
            else decrypt_file W fname input_filepath output_filepath pwd nts h) of
        (res, h') \<Rightarrow> (Inr res, h'))"

text \<open>
  What the loop does with the outcome of one file: the local \<^verbatim>\<open>success_count\<close>, the
  dictionary \<^verbatim>\<open>results\<close> and the signals.
\<close>

definition record_outcome ::
  "file_info \<Rightarrow> exn + result \<Rightarrow> nat \<times> results \<times> event list \<Rightarrow> nat \<times> results \<times> event list" where
  "record_outcome file outcome st =
     (case st of (count, res, h) \<Rightarrow>
        (case outcome of
           Inr (ok, status, nts) \<Rightarrow>
             if ok then
               (count + 1, res,
                h @ [FileStatusSignal (filename file) status True nts,
                     LogSignal (filename file @ ascii '': '' @ status @ txt_arrow @ new_filename file)
                       (ascii ''success'')])
             else
               (count, res\<lparr>failed_files := failed_files res @ [\<lparr>failed_filename = filename file, error = status\<rparr>]\<rparr>,
                h @ [FileStatusSignal (filename file) status False nts,
                     LogSignal (filename file @ ascii '': '' @ status) (ascii ''error'')])
         | Inl e \<Rightarrow>
             (count, res\<lparr>failed_files := failed_files res @ [\<lparr>failed_filename = filename file, error = str_exn e\<rparr>]\<rparr>,
              h @ [FileStatusSignal (filename file) (txt_error_prefix @ take 50 (str_exn e)) False
                     txt_processing_exception,
                   LogSignal (filename file @ txt_processing_failed @ str_exn e) (ascii ''error'')])))"

text \<open>
  The loop \<^verbatim>\<open>for i, file_info in enumerate(self.file_list)\<close>, from index \<open>i\<close> on. The
  flag is read at the top of every iteration; \<^verbatim>\<open>break\<close> leaves the remaining files
  alone.
\<close>

fun process_files ::
  "world \<Rightarrow> file_op \<Rightarrow> processing_thread \<Rightarrow> nat \<Rightarrow> file_info list \<Rightarrow> nat \<times> results \<times> event list
     \<Rightarrow> nat \<times> results \<times> event list" where
  "process_files W op th i [] st = st"
| "process_files W op th i (file # rest) (count, res, h) =
     (if cancel_requested W h then (count, res, h @ [LogSignal txt_cancelled (ascii ''warning'')])
      else
        (let input_filepath = path_join W (input_path th) (filename file);
             output_filepath = path_join W (output_path th) (new_filename file);
             h1 = h @ [ProgressSignal (i + 1) (length (file_list th))]
         in case op (filename file) input_filepath output_filepath (password file) (notes file) h1 of
              (outcome, h2) \<Rightarrow>
                process_files W op th (i + 1) rest (record_outcome file outcome (count, res, h2))))"

text \<open>The property assignments that make Excel silent, in the order of the source.\<close>

definition excel_settings :: "event list" where
  "excel_settings =
     [ExcelSet ''Visible'' (Inl False), ExcelSet ''DisplayAlerts'' (Inl False),
      ExcelSet ''AskToUpdateLinks'' (Inl False), ExcelSet ''AlertBeforeOverwriting'' (Inl False),
      ExcelSet ''AutomationSecurity'' (Inr 1), ExcelSet ''EnableEvents'' (Inl False),
      ExcelSet ''Interactive'' (Inl False), ExcelSet ''ScreenUpdating'' (Inl False)]"

definition finished_processing :: "processing_thread \<Rightarrow> results \<Rightarrow> event list \<Rightarrow> event list" where
  "finished_processing th res h =
     h @ [ProgressSignal (length (file_list th)) (length (file_list th)), FinishedSignal res]"

text \<open>
  The outer \<^verbatim>\<open>try\<close> block of \<^verbatim>\<open>run\<close>. \<^verbatim>\<open>excel.Quit()\<close> is its statement after the
  loop, inside \<^verbatim>\<open>try: ... except: pass\<close>.
\<close>

definition run_try ::
  "world \<Rightarrow> file_op \<Rightarrow> processing_thread \<Rightarrow> results \<Rightarrow> event list \<Rightarrow> exn option \<times> event list" where
  "run_try W op th res0 h =
     (case calls W ([CoInitialize, Dispatch] @ excel_settings) h of
        (Some e, h1) \<Rightarrow> (Some e, h1)
      | (None, h1) \<Rightarrow>
          (case clean_temp_files W th h1 of
             (Some e, h2) \<Rightarrow> (Some e, h2)
           | (None, h2) \<Rightarrow>
               (let h3 = h2 @ [ProgressSignal 0 (length (file_list th))]
                in case process_files W op th 0 (file_list th) (0, res0, h3) of
                     (count, res, h4) \<Rightarrow>
                       (let h5 = snd (call W ExcelQuit h4);
                            res' = res\<lparr>success_count := count\<rparr>
                        in (None, finished_processing th res' h5)))))"

text \<open>
  \<^verbatim>\<open>run\<close>, over any operation: the \<^verbatim>\<open>except Exception\<close> clause logs the fault, the
  \<^verbatim>\<open>finally\<close> clause calls \<^verbatim>\<open>pythoncom.CoUninitialize()\<close> and swallows its exception.
\<close>

definition run_with :: "world \<Rightarrow> file_op \<Rightarrow> processing_thread \<Rightarrow> event list \<Rightarrow> event list" where
  "run_with W op th h =
     (let res0 = \<lparr>success_count = 0, total_count = length (file_list th), failed_files = []\<rparr>;
          h1 = (case run_try W op th res0 h of
                  (None, h') \<Rightarrow> h'
                | (Some e, h') \<Rightarrow>
                    h' @ [LogSignal (txt_thread_error @ str_exn e) (ascii ''error''),
                          LogSignal (format_exc W e) (ascii ''error'')])
      in snd (call W CoUninitialize h1))"

definition run :: "world \<Rightarrow> processing_thread \<Rightarrow> event list \<Rightarrow> event list" where
  "run W th h = run_with W (file_operation W (is_encrypt th)) th h"

section \<open>The window\<close>

text \<open>
  A row of \<^verbatim>\<open>files_table\<close>: the check box of column 0 and the items of columns 1 to 5
  (file name, status, password, notes, new file name). A cell can be empty
  (\<^verbatim>\<open>None\<close>); the source tests some of them and calls \<^verbatim>\<open>.text()\<close> on others without a
  test, which raises \<^verbatim>\<open>AttributeError\<close> on an empty cell.
\<close>

record table_row =
  checkbox :: "bool option"
  filename_item :: "pystr option"
  status_item :: "pystr option"
  password_item :: "pystr option"
  notes_item :: "pystr option"
  new_filename_item :: "pystr option"

record gui =
  is_processing :: bool
  is_cancelled :: bool
  password_dict :: password_dict
  process_thread :: "processing_thread option"
  input_folder_edit :: pystr
  output_folder_edit :: pystr
  suffix_edit :: pystr
  password_book_edit :: pystr
  encrypt_radio :: bool
  auto_match_check :: bool
  files_table :: "table_row list"

definition attribute_error :: exn where
  "attribute_error =
     OtherError ([39] @ ascii ''NoneType'' @ [39] @ ascii '' object has no attribute '' @ [39] @ ascii ''text'' @ [39])"

subsection \<open>\<^verbatim>\<open>preview_new_filenames\<close>\<close>

definition preview_row :: "pystr \<Rightarrow> table_row \<Rightarrow> table_row" where
  "preview_row suffix row =
     (case filename_item row of
        None \<Rightarrow> row
      | Some fname \<Rightarrow> row\<lparr>new_filename_item := Some (rename fname suffix)\<rparr>)"

definition preview_new_filenames :: "gui \<Rightarrow> gui" where
  "preview_new_filenames g =
     (let suffix = strip (suffix_edit g)
      in g\<lparr>files_table := map (preview_row suffix) (files_table g)\<rparr>)"

subsection \<open>\<^verbatim>\<open>match_passwords_from_book\<close> and \<^verbatim>\<open>load_password_book\<close>\<close>

definition match_row :: "password_dict \<Rightarrow> table_row \<Rightarrow> table_row \<times> nat" where
  "match_row d row =
     (case filename_item row of
        None \<Rightarrow> (row, 0)
      | Some fname \<Rightarrow>
          (case d fname of
             None \<Rightarrow> (row, 0)
           | Some pwd \<Rightarrow> (row\<lparr>password_item := Some pwd, notes_item := Some txt_from_book\<rparr>, 1)))"

definition match_passwords_from_book :: "gui \<Rightarrow> gui \<times> nat" where
  "match_passwords_from_book g =
     (let matched = map (match_row (password_dict g)) (files_table g)
      in (g\<lparr>files_table := map fst matched\<rparr>, sum_list (map snd matched)))"

text \<open>
  \<^verbatim>\<open>load_password_book\<close>. The dictionary is updated in place while the rows are read,
  so the window keeps whatever the loop has stored, also when the loop fails.
\<close>

definition load_password_book :: "world \<Rightarrow> gui \<Rightarrow> event list \<Rightarrow> gui \<times> event list" where
  "load_password_book W g h =
     (let password_book_path = password_book_edit g
      in if password_book_path = [] \<or> \<not> path_exists W h password_book_path
         then (g, h @ [MessageBoxWarning txt_warning_title txt_choose_book])
         else
           (case try_encodings W password_book_path encodings ((Map.empty, 0), h) of
              (Some e, (d, row_count), h1) \<Rightarrow>
                (g\<lparr>password_dict := d\<rparr>,
                 h1 @ [LogMessage (txt_load_failed @ str_exn e) (ascii ''error''),
                       MessageBoxCritical txt_error_title (txt_load_failed_nl @ str_exn e @ txt_format_help)])
            | (None, (d, row_count), h1) \<Rightarrow>
                (if auto_match_check g
                 then (case match_passwords_from_book (g\<lparr>password_dict := d\<rparr>) of
                         (g', match_count) \<Rightarrow>
                           (g', h1 @ [LogMessage (txt_auto_matched @ str_nat match_count @ txt_files_unit)
                                        (ascii ''success'')]))
                 else (g\<lparr>password_dict := d\<rparr>, h1))))"

subsection \<open>\<^verbatim>\<open>get_selected_files\<close>, \<^verbatim>\<open>validate_selection\<close> and \<^verbatim>\<open>start_processing\<close>\<close>

fun get_selected_files_from :: "table_row list \<Rightarrow> exn + file_info list" where
  "get_selected_files_from [] = Inr []"
| "get_selected_files_from (row # rows) =
     (if checkbox row = Some True then
        (case filename_item row of
           None \<Rightarrow> Inl attribute_error
         | Some fname \<Rightarrow>
             (let info = \<lparr>filename = fname,
                          new_filename = (case new_filename_item row of None \<Rightarrow> fname | Some n \<Rightarrow> n),
                          password = (case password_item row of None \<Rightarrow> [] | Some p \<Rightarrow> p),
                          notes = (case notes_item row of None \<Rightarrow> [] | Some n \<Rightarrow> n)\<rparr>
              in case get_selected_files_from rows of
                   Inl e \<Rightarrow> Inl e
                 | Inr selected \<Rightarrow> Inr (info # selected)))
      else get_selected_files_from rows)"

definition get_selected_files :: "gui \<Rightarrow> exn + file_info list" where
  "get_selected_files g = get_selected_files_from (files_table g)"

text \<open>
  \<^verbatim>\<open>validate_selection\<close>. The output folder is created before the passwords are looked
  at. The message for missing passwords lists the first five names.
\<close>

definition missing_password_message :: "pystr list \<Rightarrow> pystr" where
  "missing_password_message empty_password_files =
     (let shown = str_join [10] (take 5 empty_password_files);
          shown' = (if length empty_password_files > 5
                    then shown @ txt_and_more @ str_nat (length empty_password_files) @ txt_files_unit
                    else shown)
      in txt_files_without_password @ shown')"

definition validate_selection ::
  "world \<Rightarrow> gui \<Rightarrow> event list \<Rightarrow> (exn + bool \<times> pystr) \<times> event list" where
  "validate_selection W g h =
     (case get_selected_files g of
        Inl e \<Rightarrow> (Inl e, h)
      | Inr selected_files \<Rightarrow>
          if selected_files = [] then (Inr (False, txt_select_one_file), h)
          else
            (let out = output_folder_edit g
             in if out = [] then (Inr (False, txt_set_output_folder), h)
                else
                  (case call W (OsMakedirs out) h of
                     (Some e, h1) \<Rightarrow> (Inr (False, txt_cannot_create_output @ str_exn e), h1)
                   | (None, h1) \<Rightarrow>
                       (let empty_password_files =
                              map filename (filter (\<lambda>info. password info = []) selected_files)
                        in if encrypt_radio g \<and> empty_password_files \<noteq> []
                           then (Inr (False, missing_password_message empty_password_files), h1)
                           else (Inr (True, []), h1)))))"

definition confirm_msg :: "gui \<Rightarrow> file_info list \<Rightarrow> pystr" where
  "confirm_msg g selected_files =
     (let suffix = strip (suffix_edit g);
          action = (if encrypt_radio g then txt_encrypt else txt_decrypt)
      in txt_confirm_start @ action @ txt_confirm_q
         @ txt_file_count @ str_nat (length selected_files) @ [10]
         @ txt_input_folder @ input_folder_edit g @ [10]
         @ txt_output_folder @ output_folder_edit g @ [10]
         @ (if suffix \<noteq> [] then txt_suffix @ suffix @ [10] else [])
         @ txt_originals_untouched)"

text \<open>
  \<^verbatim>\<open>start_processing\<close>, up to \<^verbatim>\<open>self.process_thread.start()\<close>: the window after the
  call, the thread that was started (if one was) or the exception that left the
  function, and the history. Enabling and disabling the controls is left out, except
  for the flag \<^verbatim>\<open>is_processing\<close> that \<^verbatim>\<open>set_controls_enabled\<close> sets.
\<close>

definition start_processing ::
  "world \<Rightarrow> gui \<Rightarrow> event list \<Rightarrow> gui \<times> (exn + processing_thread option) \<times> event list" where
  "start_processing W g h =
     (if is_processing g then (g, Inr None, h @ [MessageBoxWarning txt_warning_title txt_busy])
      else
        (let inp = input_folder_edit g;
             h1 = h @ [Print inp]
         in if \<not> path_exists W h1 inp
            then (g, Inr None, h1 @ [MessageBoxWarning txt_warning_title txt_invalid_input_folder])
            else
              (case validate_selection W g h1 of
                 (Inl e, h2) \<Rightarrow> (g, Inl e, h2)
               | (Inr (is_valid, error_msg), h2) \<Rightarrow>
                   if \<not> is_valid then (g, Inr None, h2 @ [MessageBoxWarning txt_warning_title error_msg])
                   else
                     (case get_selected_files g of
                        Inl e \<Rightarrow> (g, Inl e, h2)
                      | Inr selected_files \<Rightarrow>
                          (let h3 = h2 @ [MessageBoxQuestion txt_confirm_title (confirm_msg g selected_files)]
                           in if \<not> user_confirms W h3 then (g, Inr None, h3)
                              else
                                (let th = ProcessingThread W inp (output_folder_edit g) selected_files
                                            (encrypt_radio g)
                                 in (g\<lparr>is_processing := True, is_cancelled := False,
                                        process_thread := Some th\<rparr>,
                                     Inr (Some th), h3)))))))"

text \<open>
  The whole submission: \<^verbatim>\<open>start_processing\<close>, and the \<^verbatim>\<open>run\<close> of the thread when one
  was started.
\<close>

definition submit :: "world \<Rightarrow> gui \<Rightarrow> event list \<Rightarrow> event list" where
  "submit W g h =
     (case start_processing W g h of
        (g', Inr (Some th), h') \<Rightarrow> run W th h'
      | (g', Inr None, h') \<Rightarrow> h'
      | (g', Inl e, h') \<Rightarrow> h')"

section \<open>Notions used to state the properties\<close>

text \<open>
  The rows that the reader yields for a file that decodes without error under an
  encoding, with the delimiter that \<^verbatim>\<open>load_password_book\<close> detects; \<open>None\<close> when opening,
  decoding or parsing raises.
\<close>

definition rows_under :: "world \<Rightarrow> event list \<Rightarrow> pystr \<Rightarrow> pystr \<Rightarrow> pystr list list option" where
  "rows_under W h path encoding =
     (case open_text W h path encoding of
        Inl e \<Rightarrow> None
      | Inr f \<Rightarrow>
          (case readline f of
             Inl e \<Rightarrow> None
           | Inr first_line \<Rightarrow>
               (case csv_reader f (if py_in [9] first_line then [9] else ascii '','') of
                  (rows, None) \<Rightarrow> Some rows
                | (rows, Some e) \<Rightarrow> None)))"

text \<open>
  The lookup with stripped fields, on the rows of a file: a data row has at least two
  fields, is not a comment and has a file name; the last data row whose file name,
  without the white space around it, is the queried name gives the password, without
  the white space around it.
\<close>

definition data_row :: "pystr list \<Rightarrow> bool" where
  "data_row row =
     (length row \<ge> 2 \<and> \<not> startswith (strip (row ! 0)) (ascii ''#'') \<and> strip (row ! 0) \<noteq> [])"

definition spec_lookup :: "pystr list list \<Rightarrow> pystr \<Rightarrow> pystr option" where
  "spec_lookup rows f =
     (case filter (\<lambda>row. data_row row \<and> strip (row ! 0) = f) rows of
        [] \<Rightarrow> None
      | r # rs \<Rightarrow> Some (strip (last (r # rs) ! 1)))"

text \<open>
  The lookup in the words of claim C5, on the rows of a file: the password field of the
  last row whose file name field is the queried name.
\<close>

definition literal_lookup :: "pystr list list \<Rightarrow> pystr \<Rightarrow> pystr option" where
  "literal_lookup rows f =
     (case filter (\<lambda>row. length row \<ge> 2 \<and> row ! 0 = f) rows of
        [] \<Rightarrow> None
      | r # rs \<Rightarrow> Some (last (r # rs) ! 1))"

text \<open>
  The first encoding of a list under which the file is read without error, with the rows
  of that reading. The history moves as in \<^verbatim>\<open>load_password_book\<close>: an attempt that fails
  with an exception other than \<^verbatim>\<open>UnicodeDecodeError\<close> leaves a warning in the log.
\<close>

fun first_reading ::
  "world \<Rightarrow> pystr \<Rightarrow> pystr list \<Rightarrow> event list \<Rightarrow> (pystr \<times> pystr list list) option" where
  "first_reading W path [] h = None"
| "first_reading W path (encoding # rest) h =
     (case rows_under W h path encoding of
        Some rows \<Rightarrow> Some (encoding, rows)
      | None \<Rightarrow>
          (case snd (attempt W h path encoding (Map.empty, 0)) of
             Some (OtherError m) \<Rightarrow>
               first_reading W path rest
                 (h @ [LogMessage (txt_encoding @ encoding @ txt_read_failed @ m) (ascii ''warning'')])
           | _ \<Rightarrow> first_reading W path rest h))"



text \<open>The outcomes that the file status signals of a history report, in order.\<close>

fun status_of :: "event \<Rightarrow> (pystr \<times> bool) option" where
  "status_of (FileStatusSignal f s ok n) = Some (f, ok)"
| "status_of ev = None"

definition statuses :: "event list \<Rightarrow> (pystr \<times> bool) list" where
  "statuses h = List.map_filter status_of h"

text \<open>The signals of the worker thread, as opposed to its calls to the outside.\<close>

fun is_signal :: "event \<Rightarrow> bool" where
  "is_signal (ProgressSignal i n) = True"
| "is_signal (LogSignal m t) = True"
| "is_signal (FileStatusSignal f s ok n) = True"
| "is_signal (FinishedSignal r) = True"
| "is_signal ev = False"

text \<open>
  The calls that the operation on one file may make, given its input path and its output
  path: it opens the input, sets passwords on the open workbook, saves to the output
  path and closes; it creates the folder of the output path; when decrypting it removes
  a file at the output path.
\<close>

fun file_call :: "world \<Rightarrow> bool \<Rightarrow> pystr \<Rightarrow> pystr \<Rightarrow> event \<Rightarrow> bool" where
  "file_call W enc inp outp (WorkbooksOpen p pw) = (p = inp)"
| "file_call W enc inp outp (SetPassword p) = True"
| "file_call W enc inp outp (SetWritePassword p) = True"
| "file_call W enc inp outp (SaveAs p) = (p = outp)"
| "file_call W enc inp outp WbClose = True"
| "file_call W enc inp outp (OsRemove p) = (\<not> enc \<and> p = outp)"
| "file_call W enc inp outp (OsMakedirs p) = (p = dirname W outp)"
| "file_call W enc inp outp ev = False"

text \<open>The text that \<^verbatim>\<open>run\<close> stores as \<^verbatim>\<open>'error'\<close> for a file that did not succeed.\<close>

fun error_reason :: "exn + result \<Rightarrow> pystr" where
  "error_reason (Inl e) = str_exn e"
| "error_reason (Inr (ok, status, nts)) = status"

fun failed :: "exn + result \<Rightarrow> bool" where
  "failed (Inl e) = True"
| "failed (Inr (ok, status, nts)) = (\<not> ok)"

section \<open>Sample worlds\<close>

text \<open>
  A world in which every call succeeds and every path exists. The input folder holds a
  lock file of Excel and two workbooks. Paths are joined with a backslash.
\<close>

definition sample_world :: world where
  "sample_world =
     \<lparr>path_exists = (\<lambda>h p. True),
      listdir = (\<lambda>h p. Inr [ascii ''~$a.xlsx'', ascii ''a.xlsx'', ascii ''b.xlsx'']),
      open_text = (\<lambda>h p encoding. Inl (OtherError (ascii ''No such file or directory''))),
      raises = (\<lambda>h ev. None),
      cancel_requested = (\<lambda>h. False),
      user_confirms = (\<lambda>h. True),
      abspath = (\<lambda>p. p),
      path_join = (\<lambda>a b. a @ [92] @ b),
      dirname = (\<lambda>p. take (nat (max (rfind p sep) (rfind p altsep))) p),
      format_exc = (\<lambda>e. ascii ''Traceback: '' @ str_exn e)\<rparr>"

definition job_a :: file_info where
  "job_a = \<lparr>filename = ascii ''a.xlsx'', new_filename = ascii ''a_new.xlsx'',
            password = ascii ''pw1'', notes = []\<rparr>"

definition job_b :: file_info where
  "job_b = \<lparr>filename = ascii ''b.xlsx'', new_filename = ascii ''b_new.xlsx'',
            password = ascii ''pw2'', notes = []\<rparr>"

definition job_c :: file_info where
  "job_c = \<lparr>filename = ascii ''c.xlsx'', new_filename = ascii ''c_new.xlsx'',
            password = ascii ''pw3'', notes = []\<rparr>"

definition sample_thread :: "file_info list \<Rightarrow> bool \<Rightarrow> processing_thread" where
  "sample_thread files enc = ProcessingThread sample_world (ascii ''in'') (ascii ''out'') files enc"

text \<open>Excel cannot open the workbook \<^verbatim>\<open>a.xlsx\<close> of the input folder.\<close>

definition corrupt_world :: world where
  "corrupt_world =
     sample_world\<lparr>raises := (\<lambda>h ev.
        (case ev of
           WorkbooksOpen p pw \<Rightarrow>
             if p = ascii ''in'' @ [92] @ ascii ''a.xlsx'' then Some (OtherError (ascii ''corrupt'')) else None
         | _ \<Rightarrow> None))\<rparr>"

text \<open>Excel rejects every password, with its English message.\<close>

definition wrong_password_world :: world where
  "wrong_password_world =
     sample_world\<lparr>raises := (\<lambda>h ev.
        (case ev of
           WorkbooksOpen p (Some pw) \<Rightarrow>
             Some (OtherError (ascii ''The password you supplied is not correct.''))
         | _ \<Rightarrow> None))\<rparr>"

text \<open>The window asks for cancellation as soon as one file has its status.\<close>

definition cancelling_world :: world where
  "cancelling_world = sample_world\<lparr>cancel_requested := (\<lambda>h. statuses h \<noteq> [])\<rparr>"

text \<open>The input folder cannot be listed.\<close>

definition unlistable_world :: world where
  "unlistable_world =
     sample_world\<lparr>listdir := (\<lambda>h p. Inl (OtherError (ascii ''The directory name is invalid'')))\<rparr>"

text \<open>An operation that raises, for every file.\<close>

definition raising_op :: file_op where
  "raising_op fname input_filepath output_filepath pwd nts h = (Inl (OtherError (ascii ''boom'')), h)"

text \<open>
  A password book. Read as UTF-8 (with or without signature), its first row decodes to a
  name that begins with U+0123 and a later row cannot be decoded; read as GBK, the whole
  file decodes and the first row has a name that begins with U+6A21.
\<close>

definition book_file :: "pystr list list \<Rightarrow> exn option \<Rightarrow> text_file" where
  "book_file rows stop =
     \<lparr>readline = Inr (case rows of [] \<Rightarrow> [] | r # rs \<Rightarrow> str_join (ascii '','') r @ [10]),
      csv_reader = (\<lambda>delimiter. (rows, stop))\<rparr>"

definition gbk_rows :: "pystr list list" where
  "gbk_rows = [[27169 # ascii ''.xlsx'', ascii ''p1''], [20013 # ascii ''.xlsx'', ascii ''p2'']]"

definition mixed_book_world :: world where
  "mixed_book_world =
     sample_world\<lparr>open_text := (\<lambda>h p encoding.
        if encoding = ascii ''utf-8-sig'' \<or> encoding = ascii ''utf-8''
        then Inr (book_file [[291 # ascii ''.xlsx'', ascii ''p1'']]
                    (Some (UnicodeDecodeError (ascii ''invalid continuation byte''))))
        else if encoding = ascii ''gbk'' then Inr (book_file gbk_rows None)
        else Inl (OtherError (ascii ''unknown encoding'')))\<rparr>"

text \<open>A book that is read at the first attempt, with padded fields, a duplicate and a comment.\<close>

definition plain_rows :: "pystr list list" where
  "plain_rows =
     [[ascii '' a.xlsx '', ascii '' old ''], [ascii ''# note'', ascii ''x''], [ascii ''   '', ascii ''y''],
      [ascii ''a.xlsx'', ascii ''new''], [ascii ''b.xlsx'']]"

definition plain_book_world :: world where
  "plain_book_world = sample_world\<lparr>open_text := (\<lambda>h p encoding. Inr (book_file plain_rows None))\<rparr>"

definition sample_gui :: gui where
  "sample_gui =
     \<lparr>is_processing = False, is_cancelled = False, password_dict = Map.empty, process_thread = None,
      input_folder_edit = ascii ''in'', output_folder_edit = ascii ''out'', suffix_edit = ascii ''_new'',
      password_book_edit = ascii ''book.csv'', encrypt_radio = True, auto_match_check = False,
      files_table =
        [\<lparr>checkbox = Some True, filename_item = Some (ascii ''a.xlsx''), status_item = Some [],
          password_item = Some (ascii ''pw1''), notes_item = Some [],
          new_filename_item = Some (ascii ''a_new.xlsx'')\<rparr>,
         \<lparr>checkbox = Some True, filename_item = Some (ascii ''b.xlsx''), status_item = Some [],
          password_item = Some [], notes_item = Some [],
          new_filename_item = Some (ascii ''b_new.xlsx'')\<rparr>]\<rparr>"

text \<open>A book with one row, whose fields have spaces around them.\<close>

definition padded_rows :: "pystr list list" where
  "padded_rows = [[ascii '' a.xlsx '', ascii '' old '']]"

definition padded_book_world :: world where
  "padded_book_world = sample_world\<lparr>open_text := (\<lambda>h p encoding. Inr (book_file padded_rows None))\<rparr>"

text \<open>
  Excel rejects every password, with its German message (the letter U+00FC is the code
  point 252).
\<close>

definition german_message :: pystr where
  "german_message = ascii ''Das eingegebene Kennwort ist ung'' @ [252] @ ascii ''ltig.''"

definition german_world :: world where
  "german_world =
     sample_world\<lparr>raises := (\<lambda>h ev.
        (case ev of
           WorkbooksOpen p (Some pw) \<Rightarrow> Some (OtherError german_message)
         | _ \<Rightarrow> None))\<rparr>"

text \<open>
  A job whose new name is its old name (empty suffix), in a thread whose output folder is
  its input folder.
\<close>

definition job_same :: file_info where
  "job_same = \<lparr>filename = ascii ''a.xlsx'', new_filename = ascii ''a.xlsx'',
               password = ascii ''pw1'', notes = []\<rparr>"

definition same_folder_thread :: "bool \<Rightarrow> processing_thread" where
  "same_folder_thread enc = ProcessingThread sample_world (ascii ''in'') (ascii ''in'') [job_same] enc"

section \<open>The rename policy: proofs\<close>

lemma rfind_from_append:
  "rfind_from c (xs @ ys) i found = rfind_from c ys (i + length xs) (rfind_from c xs i found)"
  by (induction xs arbitrary: i found) auto

lemma rfind_from_notin: "c \<notin> set xs \<Longrightarrow> rfind_from c xs i found = found"
  by (induction xs arbitrary: i found) auto

lemma rfind_from_bounds:
  "found < int i \<Longrightarrow> found \<le> rfind_from c xs i found \<and> rfind_from c xs i found < int (i + length xs)"
proof (induction xs arbitrary: i found)
  case Nil then show ?case by simp
next
  case (Cons x xs)
  have "(if x = c then int i else found) < int (Suc i)" using Cons.prems by simp
  from Cons.IH [OF this] Cons.prems show ?case by (auto split: if_splits)
qed

lemma rfind_append_notin: "c \<notin> set ys \<Longrightarrow> rfind (xs @ ys) c = rfind xs c"
  by (simp add: rfind_def rfind_from_append rfind_from_notin)

lemma rfind_append_last: "c \<notin> set ys \<Longrightarrow> rfind (xs @ c # ys) c = int (length xs)"
  by (simp add: rfind_def rfind_from_append rfind_from_notin)

lemma rfind_less: "rfind p c < int (length p)"
  using rfind_from_bounds [of "- 1" 0 c p] by (simp add: rfind_def)

lemma rfind_ge: "- 1 \<le> rfind p c"
  using rfind_from_bounds [of "- 1" 0 c p] by (simp add: rfind_def)

lemma rfind_from_drop:
  "found < int i \<Longrightarrow> rfind_from c xs i found < int (i + k) \<Longrightarrow> c \<notin> set (drop k xs)"
proof (induction xs arbitrary: i found k)
  case Nil then show ?case by simp
next
  case (Cons x xs)
  let ?f = "if x = c then int i else found"
  have lt: "?f < int (Suc i)" using Cons.prems(1) by simp
  show ?case
  proof (cases k)
    case 0
    have "?f \<le> rfind_from c xs (Suc i) ?f" using rfind_from_bounds [OF lt] by blast
    with Cons.prems 0 have "x \<noteq> c" by (auto split: if_splits)
    moreover have "c \<notin> set (drop 0 xs)"
    proof (rule Cons.IH [OF lt])
      show "rfind_from c xs (Suc i) ?f < int (Suc i + 0)"
        using Cons.prems(2) 0 \<open>x \<noteq> c\<close> rfind_from_bounds [OF lt, of c xs] Cons.prems(1) by auto
    qed
    ultimately show ?thesis using 0 by simp
  next
    case (Suc k')
    have "c \<notin> set (drop k' xs)"
      by (rule Cons.IH [OF lt]) (use Cons.prems(2) Suc in simp)
    then show ?thesis using Suc by simp
  qed
qed

lemma rfind_drop: "rfind p c < int k \<Longrightarrow> c \<notin> set (drop k p)"
  using rfind_from_drop [of "- 1" 0 c p k] by (simp add: rfind_def)

lemma rfind_from_hit:
  "found < int i \<Longrightarrow> rfind_from c xs i found \<noteq> found \<Longrightarrow>
     \<exists>k < length xs. rfind_from c xs i found = int (i + k) \<and> xs ! k = c \<and> c \<notin> set (drop (Suc k) xs)"
proof (induction xs arbitrary: i found)
  case Nil then show ?case by simp
next
  case (Cons x xs)
  let ?f = "if x = c then int i else found"
  have lt: "?f < int (Suc i)" using Cons.prems(1) by simp
  show ?case
  proof (cases "rfind_from c xs (Suc i) ?f = ?f")
    case True
    with Cons.prems have xc: "x = c" by (auto split: if_splits)
    have "rfind_from c xs (Suc i) ?f < int (Suc i + 0)" using True xc by simp
    from rfind_from_drop [OF lt this] have "c \<notin> set xs" by simp
    with True xc show ?thesis by (intro exI [of _ 0]) simp
  next
    case False
    from Cons.IH [OF lt False] obtain k where "k < length xs"
      "rfind_from c xs (Suc i) ?f = int (Suc i + k)" "xs ! k = c" "c \<notin> set (drop (Suc k) xs)"
      by blast
    then show ?thesis by (intro exI [of _ "Suc k"]) simp
  qed
qed

lemma rfind_split:
  assumes "rfind p c = int d"
  shows "\<exists>ys. p = take d p @ c # ys \<and> c \<notin> set ys"
proof -
  have "rfind_from c p 0 (- 1) \<noteq> - 1" using assms by (simp add: rfind_def)
  from rfind_from_hit [of "- 1" 0 c p, OF _ this] obtain k where
    k: "k < length p" "rfind_from c p 0 (- 1) = int k" "p ! k = c" "c \<notin> set (drop (Suc k) p)"
    by auto
  then have "k = d" using assms by (simp add: rfind_def)
  with k have "p = take d p @ c # drop (Suc d) p" "c \<notin> set (drop (Suc d) p)"
    using id_take_nth_drop [of d p] by auto
  then show ?thesis by blast
qed

lemma has_stem_iff:
  "has_stem p a b = (\<exists>j. a \<le> j \<and> j < b \<and> take 1 (drop j p) \<noteq> [extsep])"
proof (induction p a b rule: has_stem.induct)
  case (1 p fi di)
  show ?case
  proof (cases "fi < di")
    case False
    then show ?thesis by (subst has_stem.simps) auto
  next
    case True
    show ?thesis
    proof (cases "take 1 (drop fi p) \<noteq> [extsep]")
      case True
      with \<open>fi < di\<close> show ?thesis by (subst has_stem.simps) auto
    next
      case False
      then have "has_stem p fi di = has_stem p (Suc fi) di"
        using \<open>fi < di\<close> by (subst has_stem.simps) simp
      also have "\<dots> = (\<exists>j. Suc fi \<le> j \<and> j < di \<and> take 1 (drop j p) \<noteq> [extsep])"
        using 1 True False by simp
      also have "\<dots> = (\<exists>j. fi \<le> j \<and> j < di \<and> take 1 (drop j p) \<noteq> [extsep])"
        using False by (metis Suc_leD Suc_leI le_neq_implies_less)
      finally show ?thesis .
    qed
  qed
qed

lemma take1_drop_append:
  "j < length p \<Longrightarrow> take 1 (drop j (p @ q)) = take 1 (drop j p)"
  by (cases "drop j p") auto

lemma has_stem_append:
  "b \<le> length p \<Longrightarrow> has_stem (p @ q) a b = has_stem p a b"
  unfolding has_stem_iff
  using take1_drop_append [of _ p q] by (metis order.strict_trans2)

lemma splitext_ext:
  assumes "splitext f = (n, e)" "e \<noteq> []"
  shows "\<exists>e'. e = extsep # e' \<and> extsep \<notin> set e' \<and> sep \<notin> set e \<and> altsep \<notin> set e \<and> f = n @ e
           \<and> has_stem n (nat (max (rfind n sep) (rfind n altsep) + 1)) (length n)"
proof -
  define si where "si = max (rfind f sep) (rfind f altsep)"
  define di where "di = rfind f extsep"
  have c: "di > si \<and> has_stem f (nat (si + 1)) (nat di)" and n: "n = take (nat di) f" and e: "e = drop (nat di) f"
    using assms unfolding splitext_def Let_def si_def di_def by (auto split: if_splits)
  have "- 1 \<le> si" unfolding si_def using rfind_ge [of f sep] by simp
  with c have di0: "0 \<le> di" by simp
  then have "rfind f extsep = int (nat di)" by (simp add: di_def)
  from rfind_split [OF this] obtain ys where ys: "f = take (nat di) f @ extsep # ys" "extsep \<notin> set ys"
    by blast
  have fe: "f = n @ e" by (simp add: n e)
  with ys n have e': "e = extsep # ys" by (metis same_append_eq)
  have "rfind f sep < int (nat di)" "rfind f altsep < int (nat di)" using c di0 by (auto simp: si_def)
  then have seps: "sep \<notin> set e" "altsep \<notin> set e" using rfind_drop e by blast+
  have "rfind f sep = rfind n sep" "rfind f altsep = rfind n altsep"
    using seps fe rfind_append_notin by metis+
  moreover have "nat di = length n" using n rfind_less [of f extsep] di0 by (simp add: di_def)
  moreover have "has_stem f (nat (si + 1)) (length n) = has_stem n (nat (si + 1)) (length n)"
    using has_stem_append [of "length n" n e] fe by simp
  ultimately have "has_stem n (nat (max (rfind n sep) (rfind n altsep) + 1)) (length n)"
    using c by (simp add: si_def)
  with e' ys seps fe show ?thesis by blast
qed

lemma splitext_noext:
  assumes "splitext f = (n, [])"
  shows "n = f \<and> \<not> (rfind f extsep > max (rfind f sep) (rfind f altsep)
     \<and> has_stem f (nat (max (rfind f sep) (rfind f altsep) + 1)) (nat (rfind f extsep)))"
proof -
  have "drop (nat (rfind f extsep)) f \<noteq> []" if "0 \<le> rfind f extsep"
    using rfind_less [of f extsep] that by simp
  moreover have "- 1 \<le> max (rfind f sep) (rfind f altsep)" using rfind_ge [of f sep] by simp
  ultimately show ?thesis
    using assms unfolding splitext_def Let_def by (auto split: if_splits)
qed

lemma splitext_renamed:
  assumes "splitext f = (n, e)" "sep \<notin> set s" "altsep \<notin> set s" "e \<noteq> [] \<or> extsep \<notin> set s"
  shows "splitext (n @ s @ e) = (n @ s, e)"
proof (cases "e = []")
  case False
  from splitext_ext [OF assms(1) False] obtain e' where
    e': "e = extsep # e'" "extsep \<notin> set e'" "sep \<notin> set e" "altsep \<notin> set e"
    and st: "has_stem n (nat (max (rfind n sep) (rfind n altsep) + 1)) (length n)" by blast
  let ?g = "n @ s @ e"
  have d: "rfind ?g extsep = int (length (n @ s))"
    using rfind_append_last [of extsep e' "n @ s"] e' by simp
  have s1: "rfind ?g sep = rfind n sep" using rfind_append_notin [of sep "s @ e" n] e' assms by simp
  have s2: "rfind ?g altsep = rfind n altsep" using rfind_append_notin [of altsep "s @ e" n] e' assms by simp
  let ?si = "max (rfind n sep) (rfind n altsep)"
  have lt: "?si < int (length n)" using rfind_less [of n sep] rfind_less [of n altsep] by simp
  have "has_stem (n @ (s @ e)) (nat (?si + 1)) (length n)"
    using st has_stem_append [of "length n" n "s @ e"] by simp
  then have "has_stem ?g (nat (?si + 1)) (length (n @ s))"
    unfolding has_stem_iff by (auto intro: less_le_trans)
  moreover have "nat (rfind ?g extsep) = length (n @ s)" using d by simp
  ultimately show ?thesis using d s1 s2 lt unfolding splitext_def Let_def by simp
next
  case True
  with assms have nodot: "extsep \<notin> set s" by simp
  from splitext_noext assms(1) True have nf: "n = f"
    and c: "\<not> (rfind f extsep > max (rfind f sep) (rfind f altsep)
     \<and> has_stem f (nat (max (rfind f sep) (rfind f altsep) + 1)) (nat (rfind f extsep)))" by blast+
  let ?g = "f @ s"
  have r: "rfind ?g extsep = rfind f extsep" "rfind ?g sep = rfind f sep" "rfind ?g altsep = rfind f altsep"
    using rfind_append_notin nodot assms by blast+
  have "nat (rfind f extsep) \<le> length f" using rfind_less [of f extsep] by simp
  then have hs: "has_stem ?g a (nat (rfind f extsep)) = has_stem f a (nat (rfind f extsep))" for a
    by (rule has_stem_append)
  have "\<not> (rfind ?g extsep > max (rfind ?g sep) (rfind ?g altsep)
     \<and> has_stem ?g (nat (max (rfind ?g sep) (rfind ?g altsep) + 1)) (nat (rfind ?g extsep)))"
    unfolding r hs by (rule c)
  then have "splitext ?g = (?g, [])" unfolding splitext_def Let_def by (rule if_not_P)
  then show ?thesis using True nf by simp
qed

text \<open>
  Claim C7, as amended. With \<open>(n, e) = splitext f\<close>: a non-empty suffix \<open>s\<close> gives
  \<open>n @ s @ e\<close>, the empty suffix leaves the name as it is, and renaming twice with \<open>s\<close>
  gives \<open>n @ s @ s @ e\<close> when \<open>s\<close> has no path separator and, if the name has no
  extension, no dot either. The suffix is the one \<^verbatim>\<open>preview_new_filenames\<close> uses, after
  \<^verbatim>\<open>.strip()\<close>.
\<close>

theorem rename_policy:
  assumes "splitext f = (n, e)"
  shows "(s \<noteq> [] \<longrightarrow> rename f s = n @ s @ e) \<and> rename f [] = f \<and>
         (s \<noteq> [] \<and> sep \<notin> set s \<and> altsep \<notin> set s \<and> (e \<noteq> [] \<or> extsep \<notin> set s)
            \<longrightarrow> rename (rename f s) s = n @ s @ s @ e)"
proof -
  have "rename (rename f s) s = n @ s @ s @ e"
    if "s \<noteq> []" "sep \<notin> set s" "altsep \<notin> set s" "e \<noteq> [] \<or> extsep \<notin> set s"
    using that assms splitext_renamed [OF assms that(2,3,4)] by (simp add: rename_def)
  then show ?thesis using assms by (simp add: rename_def)
qed

theorem rename_policy_witness:
  "splitext (ascii ''a.xlsx'') = (ascii ''a'', ascii ''.xlsx'')
   \<and> rename (ascii ''a.xlsx'') (ascii ''_enc'') = ascii ''a'' @ ascii ''_enc'' @ ascii ''.xlsx''
   \<and> rename (ascii ''a.xlsx'') [] = ascii ''a.xlsx''
   \<and> rename (rename (ascii ''a.xlsx'') (ascii ''_enc'')) (ascii ''_enc'')
       = ascii ''a'' @ ascii ''_enc'' @ ascii ''_enc'' @ ascii ''.xlsx''"
proof -
  have h: "splitext (ascii ''a.xlsx'') = (ascii ''a'', ascii ''.xlsx'')"
    by code_simp
  have c: "ascii ''_enc'' \<noteq> [] \<and> sep \<notin> set (ascii ''_enc'') \<and> altsep \<notin> set (ascii ''_enc'')
           \<and> (ascii ''.xlsx'' \<noteq> [] \<or> extsep \<notin> set (ascii ''_enc''))"
    by (simp add: ascii_def sep_def altsep_def extsep_def)
  show ?thesis
    using h c rename_policy [OF h, of "ascii ''_enc''"] by blast
qed

text \<open>
  The claim as it is written fails for a suffix that ends with a path separator: the
  first renaming of \<^verbatim>\<open>a.xlsx\<close> with the suffix \<^verbatim>\<open>/\<close> gives \<^verbatim>\<open>a/.xlsx\<close>, whose last
  component begins with its only dot and so has no extension; the second renaming appends
  the suffix at the end.
\<close>

theorem rename_twice_counterexample:
  "splitext (ascii ''a.xlsx'') = (ascii ''a'', ascii ''.xlsx'')
   \<and> rename (rename (ascii ''a.xlsx'') (ascii ''/'')) (ascii ''/'') = ascii ''a/.xlsx/''
   \<and> rename (rename (ascii ''a.xlsx'') (ascii ''/'')) (ascii ''/'')
       \<noteq> ascii ''a'' @ ascii ''/'' @ ascii ''/'' @ ascii ''.xlsx''"
  by code_simp

lemma preview_uses_stripped_suffix:
  "map new_filename_item (files_table (preview_new_filenames g)) =
     map (\<lambda>row. case filename_item row of
                   None \<Rightarrow> new_filename_item row
                 | Some fname \<Rightarrow> Some (rename fname (strip (suffix_edit g))))
       (files_table g)"
  by (simp add: preview_new_filenames_def preview_row_def split: option.split)

section \<open>The password book: proofs\<close>








text \<open>What \<open>read_row\<close> does with a row.\<close>

lemma read_row_data:
  "data_row row \<Longrightarrow> read_row row (d, n) = (d(strip (row ! 0) \<mapsto> strip (row ! 1)), n + 1)"
  by (auto simp: read_row_def data_row_def Let_def)

lemma read_row_other: "\<not> data_row row \<Longrightarrow> read_row row st = st"
  by (cases st) (auto simp: read_row_def data_row_def Let_def)

lemma read_rows_snoc: "read_rows (rows @ [row]) st = read_row row (read_rows rows st)"
  by (simp add: read_rows_def)

lemma spec_lookup_alt:
  "spec_lookup rows f =
     (let ms = filter (\<lambda>row. data_row row \<and> strip (row ! 0) = f) rows
      in if ms = [] then None else Some (strip (last ms ! 1)))"
  by (simp add: spec_lookup_def Let_def split: list.split)

lemma spec_lookup_snoc:
  "spec_lookup (rows @ [row]) f =
     (if data_row row \<and> strip (row ! 0) = f then Some (strip (row ! 1)) else spec_lookup rows f)"
  by (simp add: spec_lookup_alt Let_def)

lemma read_rows_lookup:
  "fst (read_rows rows (d, n)) f = (case spec_lookup rows f of Some p \<Rightarrow> Some p | None \<Rightarrow> d f)"
proof (induction rows rule: rev_induct)
  case Nil
  then show ?case by (simp add: read_rows_def spec_lookup_def)
next
  case (snoc row rows)
  obtain d' n' where st: "read_rows rows (d, n) = (d', n')" by (cases "read_rows rows (d, n)")
  show ?case
  proof (cases "data_row row")
    case True
    then show ?thesis using snoc st
      by (simp add: read_rows_snoc read_row_data spec_lookup_snoc)
  next
    case False
    then show ?thesis using snoc st
      by (simp add: read_rows_snoc read_row_other spec_lookup_snoc)
  qed
qed





lemma attempt_None:
  assumes "attempt W h path enc st = (st', None)"
  shows "\<exists>rows. rows_under W h path enc = Some rows \<and> st' = read_rows rows st"
proof (cases "open_text W h path enc")
  case (Inl e)
  with assms show ?thesis by (simp add: attempt_def)
next
  case (Inr f)
  show ?thesis
  proof (cases "readline f")
    case (Inl e)
    with assms Inr show ?thesis by (simp add: attempt_def read_book_def)
  next
    case r: (Inr first_line)
    obtain rows stop where c: "csv_reader f (if py_in [9] first_line then [9] else ascii '','') = (rows, stop)"
      by (cases "csv_reader f (if py_in [9] first_line then [9] else ascii '','')")
    with assms Inr r have "stop = None" "st' = read_rows rows st"
      by (simp_all add: attempt_def read_book_def Let_def)
    with Inr r c show ?thesis by (simp add: rows_under_def)
  qed
qed

lemma attempt_rows:
  assumes "rows_under W h path enc = Some rows"
  shows "attempt W h path enc st = (read_rows rows st, None)"
proof (cases "open_text W h path enc")
  case (Inl e)
  with assms show ?thesis by (simp add: rows_under_def)
next
  case (Inr f)
  show ?thesis
  proof (cases "readline f")
    case (Inl e)
    with assms Inr show ?thesis by (simp add: rows_under_def)
  next
    case r: (Inr first_line)
    obtain rs stop where c: "csv_reader f (if py_in [9] first_line then [9] else ascii '','') = (rs, stop)"
      by (cases "csv_reader f (if py_in [9] first_line then [9] else ascii '','')")
    with assms Inr r have "stop = None" "rs = rows"
      by (auto simp: rows_under_def split: option.splits)
    with Inr r c show ?thesis by (simp add: attempt_def read_book_def Let_def)
  qed
qed

lemma try_encodings_None:
  "try_encodings W path encs (st, h) = (None, st', h') \<Longrightarrow>
     \<exists>enc \<in> set encs. \<exists>hk stk rows. rows_under W hk path enc = Some rows \<and> st' = read_rows rows stk"
proof (induction encs arbitrary: st h)
  case Nil
  then show ?case by simp
next
  case (Cons enc encs)
  obtain st1 r where a: "attempt W h path enc st = (st1, r)" by (cases "attempt W h path enc st")
  show ?case
  proof (cases r)
    case None
    with a Cons.prems have "st' = st1" by simp
    with attempt_None [of W h path enc st st1] a None
    obtain rows where "rows_under W h path enc = Some rows" "st' = read_rows rows st" by auto
    then show ?thesis by (metis list.set_intros(1))
  next
    case (Some e)
    have "\<exists>h1. try_encodings W path encs (st1, h1) = (None, st', h')"
    proof (cases e)
      case (UnicodeDecodeError m)
      with a Some Cons.prems show ?thesis by auto
    next
      case (OtherError m)
      with a Some Cons.prems show ?thesis by auto
    qed
    then obtain h1 where "try_encodings W path encs (st1, h1) = (None, st', h')" ..
    from Cons.IH [OF this] show ?thesis by auto
  qed
qed

lemma try_encodings_first:
  "rows_under W h path enc = Some rows \<Longrightarrow>
     fst (try_encodings W path (enc # encs) (st, h)) = None \<and>
     fst (snd (try_encodings W path (enc # encs) (st, h))) = read_rows rows st"
  by (simp add: attempt_rows)

lemma match_keeps_dict: "password_dict (fst (match_passwords_from_book g)) = password_dict g"
  by (simp add: match_passwords_from_book_def Let_def)

lemma load_dict:
  assumes "password_book_edit g \<noteq> []" "path_exists W h (password_book_edit g)"
  shows "password_dict (fst (load_password_book W g h))
         = fst (fst (snd (try_encodings W (password_book_edit g) encodings ((Map.empty, 0), h))))"
proof -
  obtain r d n h1 where t: "try_encodings W (password_book_edit g) encodings ((Map.empty, 0), h) = (r, (d, n), h1)"
    by (metis prod.exhaust)
  show ?thesis
  proof (cases r)
    case None
    obtain g' c where m: "match_passwords_from_book (g\<lparr>password_dict := d\<rparr>) = (g', c)"
      by (metis prod.exhaust)
    then have "password_dict g' = d" using match_keeps_dict [of "g\<lparr>password_dict := d\<rparr>"] by simp
    then show ?thesis using assms t None m by (simp add: load_password_book_def Let_def)
  next
    case (Some e)
    then show ?thesis using assms t by (simp add: load_password_book_def Let_def)
  qed
qed

lemma load_first_encoding:
  assumes "password_book_edit g \<noteq> []" "path_exists W h (password_book_edit g)"
      and r: "rows_under W h (password_book_edit g) (hd encodings) = Some rows0"
  shows "password_dict (fst (load_password_book W g h)) = spec_lookup rows0"
proof
  fix f
  let ?d = "password_dict (fst (load_password_book W g h))"
  have enc: "encodings = hd encodings # tl encodings" by (simp add: encodings_def)
  have "fst (snd (try_encodings W (password_book_edit g) (hd encodings # tl encodings) ((Map.empty, 0), h)))
        = read_rows rows0 (Map.empty, 0)"
    using try_encodings_first [OF r] by blast
  then have "?d = fst (read_rows rows0 (Map.empty, 0))"
    using load_dict [OF assms(1,2)] enc by simp
  then show "?d f = spec_lookup rows0 f"
    using read_rows_lookup [of rows0 Map.empty 0 f] by (simp split: option.split)
qed

text \<open>Evaluation on the sample books.\<close>

lemmas str_simps = ascii_def strip_def lstrip_def rstrip_def isspace_def startswith_def lower_def
  lower_char_def

lemma plain_book_path:
  "password_book_edit sample_gui \<noteq> []"
  "path_exists plain_book_world [] (password_book_edit sample_gui)"
  by (simp_all add: sample_gui_def plain_book_world_def sample_world_def ascii_def)

lemma plain_book_rows:
  "rows_under plain_book_world [] (password_book_edit sample_gui) (hd encodings) = Some plain_rows"
  by (simp add: rows_under_def encodings_def book_file_def plain_book_world_def sample_world_def)

lemma plain_book_break:
  "fst (try_encodings plain_book_world (password_book_edit sample_gui) encodings ((Map.empty, 0), [])) = None"
  using try_encodings_first [OF plain_book_rows, of "tl encodings"] by (simp add: encodings_def)

lemma plain_lookup:
  "spec_lookup plain_rows (ascii ''a.xlsx'') = Some (ascii ''new'')"
  "spec_lookup plain_rows (ascii '' a.xlsx '') = None"
  by (simp_all add: plain_rows_def spec_lookup_def data_row_def str_simps)



lemma attempt_stop_independent:
  "snd (attempt W h path enc st) = snd (attempt W h path enc st')"
  by (auto simp: attempt_def read_book_def Let_def split: sum.split prod.split)

lemma attempt_fails:
  assumes "rows_under W h path enc = None"
  shows "snd (attempt W h path enc st) \<noteq> None"
proof
  assume "snd (attempt W h path enc st) = None"
  then have "attempt W h path enc st = (fst (attempt W h path enc st), None)"
    by (metis prod.collapse)
  from attempt_None [OF this] assms show False by auto
qed

lemma try_encodings_reading:
  "first_reading W path encs h = Some (enc, rows) \<Longrightarrow>
     \<exists>stk h'. try_encodings W path encs (st, h) = (None, read_rows rows stk, h')"
proof (induction encs arbitrary: st h)
  case Nil
  then show ?case by simp
next
  case (Cons e encs)
  show ?case
  proof (cases "rows_under W h path e")
    case (Some rs)
    with Cons.prems have "e = enc" "rs = rows" by simp_all
    with Some have "try_encodings W path (e # encs) (st, h) =
        (None, read_rows rows st,
         h @ [LogMessage (txt_using_encoding @ e @ txt_read_ok @ str_nat (snd (read_rows rows st)) @ txt_records)
                (ascii ''success'')])"
      using attempt_rows [of W h path e rs st] by simp
    then show ?thesis by blast
  next
    case None
    obtain st1 r where a: "attempt W h path e st = (st1, r)" by (cases "attempt W h path e st")
    from attempt_fails [OF None, of st] a obtain x where r: "r = Some x" by auto
    have ind: "snd (attempt W h path e (Map.empty, 0)) = Some x"
      using attempt_stop_independent [of W h path e "(Map.empty, 0)" st] a r by simp
    show ?thesis
    proof (cases x)
      case (UnicodeDecodeError m)
      with Cons.prems None ind have "first_reading W path encs h = Some (enc, rows)" by simp
      from Cons.IH [OF this, of st1] show ?thesis using a r UnicodeDecodeError by simp
    next
      case (OtherError m)
      let ?h = "h @ [LogMessage (txt_encoding @ e @ txt_read_failed @ m) (ascii ''warning'')]"
      from Cons.prems None ind OtherError have "first_reading W path encs ?h = Some (enc, rows)" by simp
      from Cons.IH [OF this, of st1] show ?thesis using a r OtherError by simp
    qed
  qed
qed

lemma try_encodings_no_reading:
  "first_reading W path encs h = None \<Longrightarrow> fst (try_encodings W path encs (st, h)) \<noteq> None"
proof (induction encs arbitrary: st h)
  case Nil
  then show ?case by simp
next
  case (Cons e encs)
  from Cons.prems have None: "rows_under W h path e = None" by (cases "rows_under W h path e") auto
  obtain st1 r where a: "attempt W h path e st = (st1, r)" by (cases "attempt W h path e st")
  from attempt_fails [OF None, of st] a obtain x where r: "r = Some x" by auto
  have ind: "snd (attempt W h path e (Map.empty, 0)) = Some x"
    using attempt_stop_independent [of W h path e "(Map.empty, 0)" st] a r by simp
  show ?case
  proof (cases x)
    case (UnicodeDecodeError m)
    with Cons.prems None ind have "first_reading W path encs h = None" by simp
    from Cons.IH [OF this, of st1] show ?thesis using a r UnicodeDecodeError by simp
  next
    case (OtherError m)
    let ?h = "h @ [LogMessage (txt_encoding @ e @ txt_read_failed @ m) (ascii ''warning'')]"
    from Cons.prems None ind OtherError have "first_reading W path encs ?h = None" by simp
    from Cons.IH [OF this, of st1] show ?thesis using a r OtherError by simp
  qed
qed

text \<open>The loop leaves by \<^verbatim>\<open>break\<close> exactly when some encoding reads the file.\<close>

lemma break_iff_reading:
  "fst (try_encodings W path encs (st, h)) = None \<longleftrightarrow> first_reading W path encs h \<noteq> None"
proof (cases "first_reading W path encs h")
  case None
  with try_encodings_no_reading [OF None, of st] show ?thesis by simp
next
  case (Some er)
  obtain enc rows where "er = (enc, rows)" by (cases er)
  with Some try_encodings_reading [of W path encs h enc rows st] show ?thesis by auto
qed

lemma plain_first_reading:
  "first_reading plain_book_world (password_book_edit sample_gui) encodings [] = Some (hd encodings, plain_rows)"
  using plain_book_rows by (simp add: encodings_def)

lemma padded_book_rows:
  "rows_under padded_book_world [] (password_book_edit sample_gui) (hd encodings) = Some padded_rows"
  by (simp add: rows_under_def encodings_def book_file_def padded_book_world_def sample_world_def)

lemma padded_book_path:
  "password_book_edit sample_gui \<noteq> []"
  "path_exists padded_book_world [] (password_book_edit sample_gui)"
  by (simp_all add: sample_gui_def padded_book_world_def sample_world_def ascii_def)

text \<open>
  Claim C5, as amended. When some encoding of the list reads the file without error, the
  loop over the encodings leaves by \<^verbatim>\<open>break\<close> and, for the rows of the first such
  reading: for every file name that a data row has after stripping, the dictionary gives
  the stripped password of the last such row. When the first encoding of the list reads
  the file, the dictionary is exactly that lookup.
\<close>

theorem lookup_returns_last_row_after_strip:
  assumes "password_book_edit g \<noteq> []" "path_exists W h (password_book_edit g)"
      and "first_reading W (password_book_edit g) encodings h = Some (enc, rows)"
  shows "fst (try_encodings W (password_book_edit g) encodings ((Map.empty, 0), h)) = None
       \<and> (\<forall>f p. spec_lookup rows f = Some p \<longrightarrow>
              password_dict (fst (load_password_book W g h)) f = Some p)
       \<and> (\<forall>rows0. rows_under W h (password_book_edit g) (hd encodings) = Some rows0 \<longrightarrow>
              password_dict (fst (load_password_book W g h)) = spec_lookup rows0)"
proof -
  let ?path = "password_book_edit g"
  let ?d = "password_dict (fst (load_password_book W g h))"
  from try_encodings_reading [OF assms(3), of "(Map.empty, 0)"] obtain stk h' where
    t: "try_encodings W ?path encodings ((Map.empty, 0), h) = (None, read_rows rows stk, h')" by blast
  have d: "?d = fst (read_rows rows stk)" using load_dict [OF assms(1,2)] t by simp
  have 1: "?d f = Some p" if "spec_lookup rows f = Some p" for f p
    using read_rows_lookup [of rows "fst stk" "snd stk" f] that d by simp
  have 0: "fst (try_encodings W ?path encodings ((Map.empty, 0), h)) = None" using t by simp
  show ?thesis using 0 1 load_first_encoding [OF assms(1,2)] by blast
qed

theorem lookup_returns_last_row_after_strip_witness:
  "password_book_edit sample_gui \<noteq> []
   \<and> path_exists plain_book_world [] (password_book_edit sample_gui)
   \<and> first_reading plain_book_world (password_book_edit sample_gui) encodings [] = Some (hd encodings, plain_rows)
   \<and> password_dict (fst (load_password_book plain_book_world sample_gui [])) = spec_lookup plain_rows
   \<and> spec_lookup plain_rows (ascii ''a.xlsx'') = Some (ascii ''new'')
   \<and> password_dict (fst (load_password_book plain_book_world sample_gui [])) (ascii ''a.xlsx'')
       = Some (ascii ''new'')"
  using plain_book_path plain_first_reading plain_book_rows plain_lookup(1)
    lookup_returns_last_row_after_strip [OF plain_book_path plain_first_reading]
  by metis

text \<open>
  Claim C5 as it is written fails: the fields are compared and stored without the white
  space around them. For a book whose only row has the padded fields \<^verbatim>\<open>' a.xlsx '\<close> and
  \<^verbatim>\<open>' old '\<close>, the lookup of the file name field as it stands gives nothing, and the
  lookup of \<^verbatim>\<open>'a.xlsx'\<close>, which is the field of no row, gives \<^verbatim>\<open>'old'\<close>.
\<close>

theorem lookup_of_padded_name_counterexample:
  "rows_under padded_book_world [] (password_book_edit sample_gui) (hd encodings) = Some padded_rows
   \<and> literal_lookup padded_rows (ascii '' a.xlsx '') = Some (ascii '' old '')
   \<and> password_dict (fst (load_password_book padded_book_world sample_gui [])) (ascii '' a.xlsx '') = None
   \<and> literal_lookup padded_rows (ascii ''a.xlsx'') = None
   \<and> password_dict (fst (load_password_book padded_book_world sample_gui [])) (ascii ''a.xlsx'')
       = Some (ascii ''old'')"
proof -
  have 1: "literal_lookup padded_rows (ascii '' a.xlsx '') = Some (ascii '' old '')"
    "literal_lookup padded_rows (ascii ''a.xlsx'') = None"
    by (simp_all add: literal_lookup_def padded_rows_def ascii_def)
  have 2: "spec_lookup padded_rows (ascii '' a.xlsx '') = None"
    "spec_lookup padded_rows (ascii ''a.xlsx'') = Some (ascii ''old'')"
    by (simp_all add: padded_rows_def spec_lookup_def data_row_def str_simps)
  show ?thesis
    using 1 2 padded_book_rows load_first_encoding [OF padded_book_path padded_book_rows] by simp
qed

text \<open>
  Claim C4 fails on the code. \<^verbatim>\<open>self.password_dict = {}\<close> stands before the loop over
  the encodings, so the rows stored during an attempt that ends in a
  \<^verbatim>\<open>UnicodeDecodeError\<close> are still there when a later encoding succeeds. In the sample
  world the book cannot be read as UTF-8, GBK reads it, no row of the GBK reading has the
  name that begins with U+0123, and the loaded dictionary has that name all the same.
\<close>

theorem failed_encoding_rows_are_kept:
  "rows_under mixed_book_world [] (password_book_edit sample_gui) (ascii ''utf-8-sig'') = None
   \<and> rows_under mixed_book_world [] (password_book_edit sample_gui) (ascii ''utf-8'') = None
   \<and> rows_under mixed_book_world [] (password_book_edit sample_gui) (ascii ''gbk'') = Some gbk_rows
   \<and> spec_lookup gbk_rows (291 # ascii ''.xlsx'') = None
   \<and> password_dict (fst (load_password_book mixed_book_world sample_gui [])) (291 # ascii ''.xlsx'')
       = Some (ascii ''p1'')"
proof -
  have 1: "rows_under mixed_book_world [] (password_book_edit sample_gui) (ascii ''utf-8-sig'') = None"
    and 2: "rows_under mixed_book_world [] (password_book_edit sample_gui) (ascii ''utf-8'') = None"
    and 3: "rows_under mixed_book_world [] (password_book_edit sample_gui) (ascii ''gbk'') = Some gbk_rows"
    by (simp_all add: rows_under_def book_file_def mixed_book_world_def sample_world_def ascii_def)
  have 4: "spec_lookup gbk_rows (291 # ascii ''.xlsx'') = None"
    by (simp add: gbk_rows_def spec_lookup_def data_row_def str_simps)
  have 5: "password_dict (fst (load_password_book mixed_book_world sample_gui [])) (291 # ascii ''.xlsx'')
       = Some (ascii ''p1'')"
    by (simp add: read_row_def read_rows_def read_book_def attempt_def encodings_def book_file_def
        load_password_book_def mixed_book_world_def sample_world_def sample_gui_def gbk_rows_def
        str_simps Let_def)
  show ?thesis using 1 2 3 4 5 by blast
qed

section \<open>The worker thread: proofs\<close>

declare calls.simps [simp del]

lemma call_snd [simp]: "snd (call W ev h) = h @ [ev]"
  by (simp add: call_def)

lemma call_eq: "call W ev h = (r, h') \<Longrightarrow> h' = h @ [ev]"
  by (auto simp: call_def)

lemma calls_events: "\<exists>k. snd (calls W evs h) = h @ take k evs"
proof (induction evs arbitrary: h)
  case Nil
  then show ?case by (simp add: calls.simps)
next
  case (Cons ev evs)
  show ?case
  proof (cases "raises W h ev")
    case (Some e)
    then have "snd (calls W (ev # evs) h) = h @ take 1 (ev # evs)" by (simp add: call_def calls.simps)
    then show ?thesis by blast
  next
    case None
    from Cons.IH [of "h @ [ev]"] obtain k where "snd (calls W evs (h @ [ev])) = (h @ [ev]) @ take k evs"
      by blast
    then have "snd (calls W (ev # evs) h) = h @ take (Suc k) (ev # evs)"
      using None by (simp add: call_def calls.simps)
    then show ?thesis by blast
  qed
qed

lemma calls_subset:
  "\<exists>evs'. snd (calls W evs h) = h @ evs' \<and> set evs' \<subseteq> set evs"
  using calls_events [of W evs h] by (metis set_take_subset)

lemma calls_None: "calls W evs h = (None, h') \<Longrightarrow> h' = h @ evs"
proof (induction evs arbitrary: h)
  case Nil
  then show ?case by (simp add: calls.simps)
next
  case (Cons ev evs)
  show ?case
  proof (cases "raises W h ev")
    case (Some e)
    with Cons.prems show ?thesis by (simp add: call_def calls.simps)
  next
    case None
    with Cons.prems have "calls W evs (h @ [ev]) = (None, h')" by (simp add: call_def calls.simps)
    from Cons.IH [OF this] show ?thesis by simp
  qed
qed

lemma ensure_output_dir_events:
  "\<exists>evs. snd (ensure_output_dir W outp h) = h @ evs \<and> set evs \<subseteq> {OsMakedirs (dirname W outp)}"
  by (simp add: ensure_output_dir_def Let_def)

lemma close_workbook_events:
  "\<exists>evs. close_workbook W wb h = h @ evs \<and> set evs \<subseteq> {WbClose}"
  by (simp add: close_workbook_def)

lemma encrypt_try_events:
  "\<exists>evs. snd (snd (encrypt_try W inp outp pwd nts h)) = h @ evs
     \<and> set evs \<subseteq> {WorkbooksOpen inp None, SetPassword pwd, SetWritePassword pwd, SaveAs outp}"
proof (cases "raises W h (WorkbooksOpen inp None)")
  case (Some e)
  then show ?thesis by (simp add: encrypt_try_def call_def)
next
  case None
  let ?h1 = "h @ [WorkbooksOpen inp None]"
  let ?cs = "[SetPassword pwd, SetWritePassword pwd, SaveAs outp]"
  obtain r h2 where c: "calls W ?cs ?h1 = (r, h2)" by (cases "calls W ?cs ?h1")
  from calls_subset [of W ?cs ?h1] c obtain evs' where
    e: "h2 = ?h1 @ evs'" "set evs' \<subseteq> set ?cs" by auto
  have "snd (snd (encrypt_try W inp outp pwd nts h)) = h2"
    using None c by (cases r) (simp_all add: encrypt_try_def call_def)
  then have "snd (snd (encrypt_try W inp outp pwd nts h)) = h @ (WorkbooksOpen inp None # evs')"
    using e by simp
  moreover have "set (WorkbooksOpen inp None # evs')
      \<subseteq> {WorkbooksOpen inp None, SetPassword pwd, SetWritePassword pwd, SaveAs outp}"
    using e(2) by auto
  ultimately show ?thesis by blast
qed

lemma list_all_file_call_subset:
  "set evs \<subseteq> A \<Longrightarrow> \<forall>ev \<in> A. file_call W enc inp outp ev \<Longrightarrow> list_all (file_call W enc inp outp) evs"
  by (auto simp: list_all_iff)

lemma encrypt_file_events:
  "\<exists>evs. snd (encrypt_file W fname inp outp pwd nts h) = h @ evs
     \<and> list_all (file_call W True inp outp) evs"
proof -
  consider (a) "pwd = [] \<or> \<not> path_exists W h inp"
    | (b) "pwd \<noteq> []" "path_exists W h inp" by blast
  then show ?thesis
  proof cases
    case a
    then have "snd (encrypt_file W fname inp outp pwd nts h) = h @ []"
      by (auto simp: encrypt_file_def)
    then show ?thesis by (intro exI [of _ "[]"]) simp
  next
    case b
    obtain r h1 where d: "ensure_output_dir W outp h = (r, h1)" by (cases "ensure_output_dir W outp h")
    from ensure_output_dir_events [of W outp h] d obtain e1 where
      e1: "h1 = h @ e1" "set e1 \<subseteq> {OsMakedirs (dirname W outp)}" by auto
    show ?thesis
    proof (cases r)
      case (Some e)
      then have "snd (encrypt_file W fname inp outp pwd nts h) = h @ e1"
        using b d e1 by (simp add: encrypt_file_def)
      moreover have "list_all (file_call W True inp outp) e1"
        using e1(2) by (auto simp: list_all_iff)
      ultimately show ?thesis by blast
    next
      case None
      obtain res wb h2 where t: "encrypt_try W inp outp pwd nts h1 = (res, wb, h2)"
        by (metis prod.exhaust)
      from encrypt_try_events [of W inp outp pwd nts h1] t obtain e2 where
        e2: "h2 = h1 @ e2" "set e2 \<subseteq> {WorkbooksOpen inp None, SetPassword pwd, SetWritePassword pwd, SaveAs outp}"
        by auto
      from close_workbook_events [of W wb h2] obtain e3 where
        e3: "close_workbook W wb h2 = h2 @ e3" "set e3 \<subseteq> {WbClose}" by blast
      have "snd (encrypt_file W fname inp outp pwd nts h) = close_workbook W wb h2"
        using b d None t by (simp add: encrypt_file_def)
      then have "snd (encrypt_file W fname inp outp pwd nts h) = h @ (e1 @ e2 @ e3)"
        using e1 e2 e3 by simp
      moreover have "list_all (file_call W True inp outp) (e1 @ e2 @ e3)"
        using e1(2) e2(2) e3(2) by (auto simp: list_all_iff)
      ultimately show ?thesis by blast
    qed
  qed
qed


lemma decrypt_save_events:
  "\<exists>evs. snd (decrypt_save W outp nts h) = h @ evs \<and> set evs \<subseteq> {OsRemove outp, SaveAs outp}"
proof -
  define h1 where "h1 = (if path_exists W h outp then snd (call W (OsRemove outp) h) else h)"
  have a: "\<exists>e1. h1 = h @ e1 \<and> set e1 \<subseteq> {OsRemove outp}" by (simp add: h1_def)
  then obtain e1 where e1: "h1 = h @ e1" "set e1 \<subseteq> {OsRemove outp}" by blast
  have "snd (decrypt_save W outp nts h) = h1 @ [SaveAs outp]"
    unfolding decrypt_save_def Let_def h1_def [symmetric]
    by (cases "raises W h1 (SaveAs outp)") (simp_all add: call_def)
  then have "snd (decrypt_save W outp nts h) = h @ (e1 @ [SaveAs outp])" using e1 by simp
  moreover have "set (e1 @ [SaveAs outp]) \<subseteq> {OsRemove outp, SaveAs outp}" using e1(2) by auto
  ultimately show ?thesis by blast
qed

lemma decrypt_file_events:
  "\<exists>evs. snd (decrypt_file W fname inp outp pwd nts h) = h @ evs
     \<and> list_all (file_call W False inp outp) evs"
proof (cases "path_exists W h inp")
  case False
  then have "snd (decrypt_file W fname inp outp pwd nts h) = h @ []"
    by (simp add: decrypt_file_def)
  then show ?thesis by (intro exI [of _ "[]"]) simp
next
  case True
  obtain r h1 where d: "ensure_output_dir W outp h = (r, h1)" by (cases "ensure_output_dir W outp h")
  from ensure_output_dir_events [of W outp h] d obtain e1 where
    e1: "h1 = h @ e1" "set e1 \<subseteq> {OsMakedirs (dirname W outp)}" by auto
  show ?thesis
  proof (cases r)
    case (Some e)
    then have "snd (decrypt_file W fname inp outp pwd nts h) = h @ e1"
      using True d e1 by (simp add: decrypt_file_def)
    moreover have "list_all (file_call W False inp outp) e1"
      using e1(2) by (auto simp: list_all_iff)
    ultimately show ?thesis by blast
  next
    case None
    let ?open = "WorkbooksOpen inp (if pwd \<noteq> [] then Some pwd else None)"
    show ?thesis
    proof (cases "raises W h1 ?open")
      case (Some e)
      then have "snd (decrypt_file W fname inp outp pwd nts h) = h @ (e1 @ [?open])"
        using True d None e1 by (simp add: decrypt_file_def call_def)
      moreover have "list_all (file_call W False inp outp) (e1 @ [?open])"
        using e1(2) by (auto simp: list_all_iff)
      ultimately show ?thesis by blast
    next
      case no: None
      let ?h2 = "h1 @ [?open]"
      define h3 where "h3 = snd (calls W [SetPassword [], SetWritePassword []] ?h2)"
      from calls_subset [of W "[SetPassword [], SetWritePassword []]" ?h2] obtain e3 where
        e3: "h3 = ?h2 @ e3" "set e3 \<subseteq> {SetPassword [], SetWritePassword []}"
        unfolding h3_def by auto
      obtain res h4 where s: "decrypt_save W outp nts h3 = (res, h4)" by (cases "decrypt_save W outp nts h3")
      from decrypt_save_events [of W outp nts h3] s obtain e4 where
        e4: "h4 = h3 @ e4" "set e4 \<subseteq> {OsRemove outp, SaveAs outp}" by auto
      have "snd (decrypt_file W fname inp outp pwd nts h) = h4 @ [WbClose]"
        using True d None no s unfolding decrypt_file_def Let_def h3_def [symmetric]
        by (simp add: call_def close_workbook_def h3_def [symmetric])
      then have "snd (decrypt_file W fname inp outp pwd nts h) = h @ (e1 @ [?open] @ e3 @ e4 @ [WbClose])"
        using e1 e3 e4 by simp
      moreover have "list_all (file_call W False inp outp) (e1 @ [?open] @ e3 @ e4 @ [WbClose])"
        using e1(2) e3(2) e4(2) by (auto simp: list_all_iff)
      ultimately show ?thesis by blast
    qed
  qed
qed

lemma file_operation_events:
  "\<exists>evs. snd (file_operation W enc fname inp outp pwd nts h) = h @ evs
     \<and> list_all (file_call W enc inp outp) evs"
proof (cases enc)
  case True
  then have "snd (file_operation W enc fname inp outp pwd nts h) = snd (encrypt_file W fname inp outp pwd nts h)"
    by (simp add: file_operation_def split: prod.split)
  with encrypt_file_events [of W fname inp outp pwd nts h] True show ?thesis by simp
next
  case False
  then have "snd (file_operation W enc fname inp outp pwd nts h) = snd (decrypt_file W fname inp outp pwd nts h)"
    by (simp add: file_operation_def split: prod.split)
  with decrypt_file_events [of W fname inp outp pwd nts h] False show ?thesis by simp
qed

lemma file_call_not_signal: "file_call W enc inp outp ev \<Longrightarrow> \<not> is_signal ev"
  by (cases ev) simp_all

lemma record_outcome_count:
  "fst (record_outcome job oc (c, res, h)) = (if failed oc then c else c + 1)"
  by (cases oc) (auto simp: record_outcome_def split: prod.splits)

lemma record_outcome_results:
  "fst (snd (record_outcome job oc (c, res, h))) =
     (if failed oc
      then res\<lparr>failed_files := failed_files res @ [\<lparr>failed_filename = filename job, error = error_reason oc\<rparr>]\<rparr>
      else res)"
  by (cases oc) (auto simp: record_outcome_def split: prod.splits)

lemma record_outcome_trace:
  "\<exists>s n m t. snd (snd (record_outcome job oc (c, res, h)))
      = h @ [FileStatusSignal (filename job) s (\<not> failed oc) n, LogSignal m t]"
  by (cases oc) (auto simp: record_outcome_def split: prod.splits)

lemma process_files_cancelled:
  "cancel_requested W h \<Longrightarrow>
     process_files W op th i (job # rest) (c, res, h) = (c, res, h @ [LogSignal txt_cancelled (ascii ''warning'')])"
  by simp

lemma process_files_step:
  assumes "\<not> cancel_requested W h"
  shows "process_files W op th i (job # rest) (c, res, h) =
     process_files W op th (i + 1) rest
       (record_outcome job
          (fst (op (filename job) (path_join W (input_path th) (filename job))
                  (path_join W (output_path th) (new_filename job)) (password job) (notes job)
                  (h @ [ProgressSignal (i + 1) (length (file_list th))])))
          (c, res,
           snd (op (filename job) (path_join W (input_path th) (filename job))
                  (path_join W (output_path th) (new_filename job)) (password job) (notes job)
                  (h @ [ProgressSignal (i + 1) (length (file_list th))]))))"
  using assms by (simp add: Let_def split: prod.split)

lemma failed_files_grow:
  "\<exists>more. failed_files (fst (snd (process_files W op th i files (c, res, h)))) = failed_files res @ more"
proof (induction files arbitrary: i c res h)
  case Nil
  then show ?case by simp
next
  case (Cons job rest)
  show ?case
  proof (cases "cancel_requested W h")
    case True
    then show ?thesis by simp
  next
    case False
    let ?r = "op (filename job) (path_join W (input_path th) (filename job))
                  (path_join W (output_path th) (new_filename job)) (password job) (notes job)
                  (h @ [ProgressSignal (i + 1) (length (file_list th))])"
    obtain c1 res1 h1 where ro: "record_outcome job (fst ?r) (c, res, snd ?r) = (c1, res1, h1)"
      by (metis prod.exhaust)
    have "\<exists>m1. failed_files res1 = failed_files res @ m1"
      using record_outcome_results [of job "fst ?r" c res "snd ?r"] ro by (auto split: if_splits)
    then obtain m1 where m1: "failed_files res1 = failed_files res @ m1" ..
    from Cons.IH [of "i + 1" c1 res1 h1] obtain m2 where
      "failed_files (fst (snd (process_files W op th (i + 1) rest (c1, res1, h1)))) = failed_files res1 @ m2"
      by blast
    then show ?thesis using process_files_step [OF False, of op th i job rest c res] ro m1 by simp
  qed
qed

lemma never_cancelled_all_counted:
  assumes "\<forall>h. \<not> cancel_requested W h"
  shows "fst (process_files W op th i files (c, res, h))
           + length (failed_files (fst (snd (process_files W op th i files (c, res, h)))))
         = c + length (failed_files res) + length files"
proof (induction files arbitrary: i c res h)
  case Nil
  then show ?case by simp
next
  case (Cons job rest)
  let ?r = "op (filename job) (path_join W (input_path th) (filename job))
                (path_join W (output_path th) (new_filename job)) (password job) (notes job)
                (h @ [ProgressSignal (i + 1) (length (file_list th))])"
  obtain c1 res1 h1 where ro: "record_outcome job (fst ?r) (c, res, snd ?r) = (c1, res1, h1)"
    by (metis prod.exhaust)
  have one: "c1 + length (failed_files res1) = c + length (failed_files res) + 1"
    using record_outcome_results [of job "fst ?r" c res "snd ?r"]
      record_outcome_count [of job "fst ?r" c res "snd ?r"] ro by (auto split: if_splits)
  have nc: "\<not> cancel_requested W h" using assms by blast
  show ?case
    using process_files_step [OF nc, of op th i job rest c res] ro Cons.IH [of "i + 1" c1 res1 h1] one
    by simp
qed

lemma statuses_append: "statuses (a @ b) = statuses a @ statuses b"
  by (simp add: statuses_def map_filter_def)

lemma statuses_Nil [simp]: "statuses [] = []"
  by (simp add: statuses_def map_filter_def)

lemma statuses_Cons: "statuses (ev # evs) = (case status_of ev of None \<Rightarrow> statuses evs | Some s \<Rightarrow> s # statuses evs)"
  by (simp add: statuses_def map_filter_def split: option.split)

lemma statuses_calls: "list_all (\<lambda>ev. \<not> is_signal ev) evs \<Longrightarrow> statuses evs = []"
proof (induction evs)
  case Nil
  then show ?case by simp
next
  case (Cons ev evs)
  then have "status_of ev = None" by (cases ev) simp_all
  with Cons show ?case by (simp add: statuses_Cons)
qed

lemma not_signal_not_finished: "\<not> is_signal ev \<Longrightarrow> ev \<noteq> FinishedSignal r"
  by (cases ev) simp_all

text \<open>One iteration of the loop, as events.\<close>

lemma iteration_events:
  assumes op: "\<exists>evs. snd (op (filename job) inp outp (password job) (notes job) (h @ [ProgressSignal k n])) 
                      = (h @ [ProgressSignal k n]) @ evs \<and> list_all P evs"
  shows "\<exists>evs s nts m t.
           snd (snd (record_outcome job
              (fst (op (filename job) inp outp (password job) (notes job) (h @ [ProgressSignal k n])))
              (c, res, snd (op (filename job) inp outp (password job) (notes job) (h @ [ProgressSignal k n])))))
           = h @ ProgressSignal k n # evs
               @ [FileStatusSignal (filename job) s
                    (\<not> failed (fst (op (filename job) inp outp (password job) (notes job) (h @ [ProgressSignal k n])))) nts,
                  LogSignal m t]
           \<and> list_all P evs"
proof -
  let ?r = "op (filename job) inp outp (password job) (notes job) (h @ [ProgressSignal k n])"
  from op obtain evs where e: "snd ?r = (h @ [ProgressSignal k n]) @ evs" "list_all P evs" by blast
  from record_outcome_trace [of job "fst ?r" c res "snd ?r"] obtain s nts m t where
    "snd (snd (record_outcome job (fst ?r) (c, res, snd ?r)))
      = snd ?r @ [FileStatusSignal (filename job) s (\<not> failed (fst ?r)) nts, LogSignal m t]" by blast
  with e show ?thesis by auto
qed

lemma process_files_statuses:
  assumes op: "\<And>fname inp outp pwd nts h.
      \<exists>evs. snd (op fname inp outp pwd nts h) = h @ evs \<and> list_all (\<lambda>ev. \<not> is_signal ev) evs"
  shows "\<exists>evs. snd (snd (process_files W op th i files (c, res, h))) = h @ evs
     \<and> map fst (statuses evs) = map filename (take (length (statuses evs)) files)
     \<and> fst (process_files W op th i files (c, res, h)) = c + length (filter snd (statuses evs))
     \<and> map failed_filename (failed_files (fst (snd (process_files W op th i files (c, res, h)))))
         = map failed_filename (failed_files res) @ map fst (filter (\<lambda>x. \<not> snd x) (statuses evs))
     \<and> total_count (fst (snd (process_files W op th i files (c, res, h)))) = total_count res
     \<and> (\<forall>r. FinishedSignal r \<notin> set evs)
     \<and> length (statuses evs) \<le> length files"
proof (induction files arbitrary: i c res h)
  case Nil
  show ?case by (intro exI [of _ "[]"]) simp
next
  case (Cons job rest)
  show ?case
  proof (cases "cancel_requested W h")
    case True
    show ?thesis
      by (intro exI [of _ "[LogSignal txt_cancelled (ascii ''warning'')]"])
         (simp add: True statuses_Cons)
  next
    case False
    let ?inp = "path_join W (input_path th) (filename job)"
    let ?outp = "path_join W (output_path th) (new_filename job)"
    let ?k = "i + 1" and ?n = "length (file_list th)"
    let ?r = "op (filename job) ?inp ?outp (password job) (notes job) (h @ [ProgressSignal ?k ?n])"
    let ?ok = "\<not> failed (fst ?r)"
    obtain c1 res1 h1 where ro: "record_outcome job (fst ?r) (c, res, snd ?r) = (c1, res1, h1)"
      by (metis prod.exhaust)
    from iteration_events [of op job ?inp ?outp h ?k ?n "\<lambda>ev. \<not> is_signal ev" c res, OF op] ro
    obtain e1 s nts m t where
      h1: "h1 = h @ ProgressSignal ?k ?n # e1 @ [FileStatusSignal (filename job) s ?ok nts, LogSignal m t]"
      and e1: "list_all (\<lambda>ev. \<not> is_signal ev) e1" by auto
    let ?it = "ProgressSignal ?k ?n # e1 @ [FileStatusSignal (filename job) s ?ok nts, LogSignal m t]"
    have st1: "statuses ?it = [(filename job, ?ok)]"
      using statuses_calls [OF e1] by (simp add: statuses_Cons statuses_append)
    have nf1: "\<forall>r. FinishedSignal r \<notin> set ?it"
      using e1 not_signal_not_finished by (auto simp: list_all_iff)
    have c1: "c1 = (if ?ok then c + 1 else c)"
      using record_outcome_count [of job "fst ?r" c res "snd ?r"] ro by simp
    have r1: "map failed_filename (failed_files res1)
               = map failed_filename (failed_files res) @ (if ?ok then [] else [filename job])"
         "total_count res1 = total_count res"
      using record_outcome_results [of job "fst ?r" c res "snd ?r"] ro by (auto split: if_splits)
    let ?p = "process_files W op th (i + 1) rest (c1, res1, h1)"
    have step: "process_files W op th i (job # rest) (c, res, h) = ?p"
      using process_files_step [OF False, of op th i job rest c res] ro by simp
    from Cons.IH [of "i + 1" c1 res1 h1] obtain e2 where
      e2: "snd (snd ?p) = h1 @ e2"
        "map fst (statuses e2) = map filename (take (length (statuses e2)) rest)"
        "fst ?p = c1 + length (filter snd (statuses e2))"
        "map failed_filename (failed_files (fst (snd ?p)))
           = map failed_filename (failed_files res1) @ map fst (filter (\<lambda>x. \<not> snd x) (statuses e2))"
        "total_count (fst (snd ?p)) = total_count res1"
        "\<forall>r. FinishedSignal r \<notin> set e2"
        "length (statuses e2) \<le> length rest"
      by blast
    have st: "statuses (?it @ e2) = (filename job, ?ok) # statuses e2"
      using st1 by (simp only: statuses_append) simp
    show ?thesis
    proof (intro exI [of _ "?it @ e2"] conjI)
      show "snd (snd (process_files W op th i (job # rest) (c, res, h))) = h @ ?it @ e2"
        using step e2(1) h1 by simp
      show "map fst (statuses (?it @ e2)) = map filename (take (length (statuses (?it @ e2))) (job # rest))"
        unfolding st using e2(2) by simp
      show "fst (process_files W op th i (job # rest) (c, res, h)) = c + length (filter snd (statuses (?it @ e2)))"
        unfolding st step using e2(3) c1 by simp
      show "map failed_filename (failed_files (fst (snd (process_files W op th i (job # rest) (c, res, h)))))
         = map failed_filename (failed_files res) @ map fst (filter (\<lambda>x. \<not> snd x) (statuses (?it @ e2)))"
        unfolding st step using e2(4) r1(1) by simp
      show "total_count (fst (snd (process_files W op th i (job # rest) (c, res, h)))) = total_count res"
        unfolding step using e2(5) r1(2) by simp
      show "\<forall>r. FinishedSignal r \<notin> set (?it @ e2)"
        using nf1 e2(6) by (metis Un_iff set_append)
      show "length (statuses (?it @ e2)) \<le> length (job # rest)"
        unfolding st using e2(7) by simp
    qed
  qed
qed

lemma process_files_calls:
  assumes op: "\<And>fname inp outp pwd nts h.
      \<exists>evs. snd (op fname inp outp pwd nts h) = h @ evs \<and> list_all (Q inp outp) evs"
  shows "\<exists>evs. snd (snd (process_files W op th i files (c, res, h))) = h @ evs
     \<and> list_all (\<lambda>ev. is_signal ev \<or>
          (\<exists>job \<in> set files. Q (path_join W (input_path th) (filename job))
                                 (path_join W (output_path th) (new_filename job)) ev)) evs"
proof (induction files arbitrary: i c res h)
  case Nil
  show ?case by (intro exI [of _ "[]"]) simp
next
  case (Cons job rest)
  show ?case
  proof (cases "cancel_requested W h")
    case True
    show ?thesis
      by (intro exI [of _ "[LogSignal txt_cancelled (ascii ''warning'')]"]) (simp add: True)
  next
    case False
    let ?inp = "path_join W (input_path th) (filename job)"
    let ?outp = "path_join W (output_path th) (new_filename job)"
    let ?k = "i + 1" and ?n = "length (file_list th)"
    let ?r = "op (filename job) ?inp ?outp (password job) (notes job) (h @ [ProgressSignal ?k ?n])"
    let ?ok = "\<not> failed (fst ?r)"
    obtain c1 res1 h1 where ro: "record_outcome job (fst ?r) (c, res, snd ?r) = (c1, res1, h1)"
      by (metis prod.exhaust)
    from iteration_events [of op job ?inp ?outp h ?k ?n "Q ?inp ?outp" c res, OF op] ro
    obtain e1 s nts m t where
      h1: "h1 = h @ ProgressSignal ?k ?n # e1 @ [FileStatusSignal (filename job) s ?ok nts, LogSignal m t]"
      and e1: "list_all (Q ?inp ?outp) e1" by auto
    let ?it = "ProgressSignal ?k ?n # e1 @ [FileStatusSignal (filename job) s ?ok nts, LogSignal m t]"
    let ?p = "process_files W op th (i + 1) rest (c1, res1, h1)"
    have step: "process_files W op th i (job # rest) (c, res, h) = ?p"
      using process_files_step [OF False, of op th i job rest c res] ro by simp
    from Cons.IH [of "i + 1" c1 res1 h1] obtain e2 where
      e2: "snd (snd ?p) = h1 @ e2"
        "list_all (\<lambda>ev. is_signal ev \<or>
          (\<exists>job \<in> set rest. Q (path_join W (input_path th) (filename job))
                                 (path_join W (output_path th) (new_filename job)) ev)) e2"
      by blast
    have "snd (snd (process_files W op th i (job # rest) (c, res, h))) = h @ ?it @ e2"
      using step e2(1) h1 by simp
    moreover have "list_all (\<lambda>ev. is_signal ev \<or>
          (\<exists>job \<in> set (job # rest). Q (path_join W (input_path th) (filename job))
                                 (path_join W (output_path th) (new_filename job)) ev)) (?it @ e2)"
      using e1 e2(2) by (auto simp: list_all_iff)
    ultimately show ?thesis by blast
  qed
qed

lemma remove_temp_files_events:
  "remove_temp_files W inp fs h =
     h @ map (\<lambda>f. OsRemove (path_join W inp f)) (filter (\<lambda>f. startswith f (ascii ''~$'')) fs)"
  by (induction fs arbitrary: h) simp_all

text \<open>The operation of \<^verbatim>\<open>run\<close> makes calls only, and only those of \<open>file_call\<close>.\<close>

lemma file_operation_no_signal:
  "\<exists>evs. snd (file_operation W enc fname inp outp pwd nts h) = h @ evs
     \<and> list_all (\<lambda>ev. \<not> is_signal ev) evs"
proof -
  from file_operation_events [of W enc fname inp outp pwd nts h] obtain evs where
    "snd (file_operation W enc fname inp outp pwd nts h) = h @ evs" "list_all (file_call W enc inp outp) evs"
    by blast
  then show ?thesis using file_call_not_signal by (auto simp: list_all_iff)
qed

text \<open>The two ways in which \<^verbatim>\<open>run\<close> ends.\<close>

lemma run_cases:
  obtains (fault) evs e where
      "run W th h = h @ evs @ [LogSignal (txt_thread_error @ str_exn e) (ascii ''error''),
                               LogSignal (format_exc W e) (ascii ''error''), CoUninitialize]"
      "set evs \<subseteq> set ([CoInitialize, Dispatch] @ excel_settings)"
  | (finished) hk fs lp r where
      "listdir W hk (input_path th) = Inr fs"
      "run W th h = h @ ([CoInitialize, Dispatch] @ excel_settings)
         @ map (\<lambda>f. OsRemove (path_join W (input_path th) f)) (filter (\<lambda>f. startswith f (ascii ''~$'')) fs)
         @ [ProgressSignal 0 (length (file_list th))] @ lp
         @ [ExcelQuit, ProgressSignal (length (file_list th)) (length (file_list th)),
            FinishedSignal r, CoUninitialize]"
      "map fst (statuses lp) = map filename (take (length (statuses lp)) (file_list th))"
      "success_count r = length (filter snd (statuses lp))"
      "map failed_filename (failed_files r) = map fst (filter (\<lambda>x. \<not> snd x) (statuses lp))"
      "total_count r = length (file_list th)"
      "length (statuses lp) \<le> length (file_list th)"
      "\<forall>r. FinishedSignal r \<notin> set lp"
      "list_all (\<lambda>ev. is_signal ev \<or>
          (\<exists>job \<in> set (file_list th).
              file_call W (is_encrypt th) (path_join W (input_path th) (filename job))
                (path_join W (output_path th) (new_filename job)) ev)) lp"
proof -
  let ?start = "[CoInitialize, Dispatch] @ excel_settings"
  let ?n = "length (file_list th)"
  let ?op = "file_operation W (is_encrypt th)"
  let ?res0 = "\<lparr>success_count = 0, total_count = ?n, failed_files = []\<rparr>"
  obtain r1 h1 where s: "calls W ?start h = (r1, h1)" by (cases "calls W ?start h")
  from calls_subset [of W ?start h] s obtain e1 where e1: "h1 = h @ e1" "set e1 \<subseteq> set ?start" by auto
  show ?thesis
  proof (cases r1)
    case (Some e)
    have "run W th h = h @ e1 @ [LogSignal (txt_thread_error @ str_exn e) (ascii ''error''),
                               LogSignal (format_exc W e) (ascii ''error''), CoUninitialize]"
      using s Some e1 by (simp add: run_def run_with_def run_try_def Let_def)
    then show ?thesis using e1(2) fault by blast
  next
    case None
    with s have h1: "h1 = h @ ?start" using calls_None by blast
    show ?thesis
    proof (cases "listdir W h1 (input_path th)")
      case (Inl e)
      have "run W th h = h @ ?start @ [LogSignal (txt_thread_error @ str_exn e) (ascii ''error''),
                               LogSignal (format_exc W e) (ascii ''error''), CoUninitialize]"
        using s None h1 Inl by (simp add: run_def run_with_def run_try_def Let_def clean_temp_files_def)
      then show ?thesis using fault [of ?start e] by blast
    next
      case (Inr fs)
      let ?rm = "map (\<lambda>f. OsRemove (path_join W (input_path th) f)) (filter (\<lambda>f. startswith f (ascii ''~$'')) fs)"
      let ?h3 = "h1 @ ?rm @ [ProgressSignal 0 ?n]"
      let ?p = "process_files W ?op th 0 (file_list th) (0, ?res0, ?h3)"
      obtain c res h4 where p: "?p = (c, res, h4)" by (metis prod.exhaust)
      from process_files_statuses [of ?op W th 0 "file_list th" 0 ?res0 ?h3, OF file_operation_no_signal] p
      obtain lp where lp: "h4 = ?h3 @ lp"
        "map fst (statuses lp) = map filename (take (length (statuses lp)) (file_list th))"
        "c = length (filter snd (statuses lp))"
        "map failed_filename (failed_files res) = map fst (filter (\<lambda>x. \<not> snd x) (statuses lp))"
        "total_count res = ?n"
        "\<forall>r. FinishedSignal r \<notin> set lp"
        "length (statuses lp) \<le> ?n"
        by auto
      from process_files_calls [of ?op "file_call W (is_encrypt th)" W th 0 "file_list th" 0 ?res0 ?h3,
          OF file_operation_events] p
      obtain lp' where lp': "h4 = ?h3 @ lp'"
        "list_all (\<lambda>ev. is_signal ev \<or>
          (\<exists>job \<in> set (file_list th).
              file_call W (is_encrypt th) (path_join W (input_path th) (filename job))
                (path_join W (output_path th) (new_filename job)) ev)) lp'"
        by auto
      from lp(1) lp'(1) have same: "lp' = lp" by simp
      let ?r = "res\<lparr>success_count := c\<rparr>"
      have run: "run W th h = h @ ?start @ ?rm @ [ProgressSignal 0 ?n] @ lp
         @ [ExcelQuit, ProgressSignal ?n ?n, FinishedSignal ?r, CoUninitialize]"
        using s None h1 Inr p lp(1)
        by (simp add: run_def run_with_def run_try_def Let_def clean_temp_files_def
            remove_temp_files_events finished_processing_def)
      show ?thesis
      proof (rule finished [of h1 fs lp ?r])
        show "listdir W h1 (input_path th) = Inr fs" by (rule Inr)
        show "run W th h = h @ ?start @ ?rm @ [ProgressSignal 0 ?n] @ lp
         @ [ExcelQuit, ProgressSignal ?n ?n, FinishedSignal ?r, CoUninitialize]" by (rule run)
        show "map fst (statuses lp) = map filename (take (length (statuses lp)) (file_list th))" by (rule lp(2))
        show "success_count ?r = length (filter snd (statuses lp))" using lp(3) by simp
        show "map failed_filename (failed_files ?r) = map fst (filter (\<lambda>x. \<not> snd x) (statuses lp))"
          using lp(4) by simp
        show "total_count ?r = ?n" using lp(5) by simp
        show "length (statuses lp) \<le> ?n" by (rule lp(7))
        show "\<forall>r. FinishedSignal r \<notin> set lp" by (rule lp(6))
        show "list_all (\<lambda>ev. is_signal ev \<or>
          (\<exists>job \<in> set (file_list th).
              file_call W (is_encrypt th) (path_join W (input_path th) (filename job))
                (path_join W (output_path th) (new_filename job)) ev)) lp"
          using lp'(2) same by simp
      qed
    qed
  qed
qed

lemma statuses_setup: "set evs \<subseteq> set ([CoInitialize, Dispatch] @ excel_settings) \<Longrightarrow> statuses evs = []"
  by (rule statuses_calls) (auto simp: list_all_iff excel_settings_def)

lemma statuses_removes: "statuses (map (\<lambda>f. OsRemove (g f)) fs) = []"
  by (rule statuses_calls) (simp add: list_all_iff)

lemma setup_not_finished:
  "set evs \<subseteq> set ([CoInitialize, Dispatch] @ excel_settings) \<Longrightarrow> FinishedSignal r \<notin> set evs"
  by (auto simp: excel_settings_def)

text \<open>
  Claim C2. In the events that a run adds, the result that \<^verbatim>\<open>finished_signal\<close> carries
  counts the files that got a status: these are a prefix of \<^verbatim>\<open>file_list\<close>, the
  successful ones are counted in \<^verbatim>\<open>success_count\<close>, the others are the entries of
  \<^verbatim>\<open>failed_files\<close>, and with the files that were not reached the two counts add up to
  \<^verbatim>\<open>total_count\<close>.
\<close>

theorem counts_partition_the_attempted_files:
  assumes "run W th h = h @ evs" "FinishedSignal r \<in> set evs"
  shows "map fst (statuses evs) = map filename (take (length (statuses evs)) (file_list th))
       \<and> success_count r = length (filter snd (statuses evs))
       \<and> map failed_filename (failed_files r) = map fst (filter (\<lambda>x. \<not> snd x) (statuses evs))
       \<and> success_count r + length (failed_files r) = length (statuses evs)
       \<and> success_count r + length (failed_files r) + (length (file_list th) - length (statuses evs))
           = total_count r"
proof (cases rule: run_cases [of W th h])
  case (fault e1 e)
  with assms(1) have "evs = e1 @ [LogSignal (txt_thread_error @ str_exn e) (ascii ''error''),
                               LogSignal (format_exc W e) (ascii ''error''), CoUninitialize]" by simp
  with assms(2) setup_not_finished [OF fault(2)] show ?thesis by auto
next
  case (finished hk fs lp r')
  let ?start = "[CoInitialize, Dispatch] @ excel_settings"
  let ?rm = "map (\<lambda>f. OsRemove (path_join W (input_path th) f)) (filter (\<lambda>f. startswith f (ascii ''~$'')) fs)"
  let ?n = "length (file_list th)"
  from assms(1) finished(2) have evs: "evs = ?start @ ?rm @ [ProgressSignal 0 ?n] @ lp
         @ [ExcelQuit, ProgressSignal ?n ?n, FinishedSignal r', CoUninitialize]" by simp
  have "FinishedSignal r \<notin> set ?start" by (rule setup_not_finished) simp
  with assms(2) finished(8) have r: "r = r'" unfolding evs by auto
  have st: "statuses evs = statuses lp"
    unfolding evs statuses_append
    using statuses_setup [of ?start] statuses_removes [of "path_join W (input_path th)"]
    by (simp add: statuses_Cons)
  have len: "length (failed_files r') = length (filter (\<lambda>x. \<not> snd x) (statuses lp))"
    using finished(5) by (metis length_map)
  have sum: "length (filter snd (statuses lp)) + length (filter (\<lambda>x. \<not> snd x) (statuses lp))
             = length (statuses lp)"
    by (rule sum_length_filter_compl)
  show ?thesis
    unfolding st r using finished(3,4,5,6,7) len sum by simp
qed



text \<open>
  \<^verbatim>\<open>excel.Quit()\<close> is called once in a run that reaches the end of its \<^verbatim>\<open>try\<close> block
  and emits \<^verbatim>\<open>finished_signal\<close>, and not at all in a run that ends in the handler of
  \<^verbatim>\<open>except Exception\<close>.
\<close>

lemma excel_quit_only_when_finished:
  assumes "run W th h = h @ evs"
  shows "count_list evs ExcelQuit = (if \<exists>r. FinishedSignal r \<in> set evs then 1 else 0)"
proof (cases rule: run_cases [of W th h])
  case (fault e1 e)
  with assms(1) have evs: "evs = e1 @ [LogSignal (txt_thread_error @ str_exn e) (ascii ''error''),
                               LogSignal (format_exc W e) (ascii ''error''), CoUninitialize]" by simp
  have "ExcelQuit \<notin> set e1" using fault(2) by (auto simp: excel_settings_def)
  then have "count_list e1 ExcelQuit = 0" by (simp add: count_list_0_iff)
  moreover have "\<not> (\<exists>r. FinishedSignal r \<in> set evs)"
    unfolding evs using setup_not_finished [OF fault(2)] by auto
  ultimately show ?thesis unfolding evs by (simp add: count_list_append)
next
  case (finished hk fs lp r')
  let ?start = "[CoInitialize, Dispatch] @ excel_settings"
  let ?rm = "map (\<lambda>f. OsRemove (path_join W (input_path th) f)) (filter (\<lambda>f. startswith f (ascii ''~$'')) fs)"
  let ?n = "length (file_list th)"
  from assms(1) finished(2) have evs: "evs = ?start @ ?rm @ [ProgressSignal 0 ?n] @ lp
         @ [ExcelQuit, ProgressSignal ?n ?n, FinishedSignal r', CoUninitialize]" by simp
  have "ExcelQuit \<notin> set lp"
  proof
    assume "ExcelQuit \<in> set lp"
    with finished(9) have "is_signal ExcelQuit \<or>
          (\<exists>job \<in> set (file_list th).
              file_call W (is_encrypt th) (path_join W (input_path th) (filename job))
                (path_join W (output_path th) (new_filename job)) ExcelQuit)"
      unfolding list_all_iff by blast
    then show False by simp
  qed
  then have 1: "count_list lp ExcelQuit = 0" by (simp add: count_list_0_iff)
  have 2: "count_list ?start ExcelQuit = 0" by (simp add: excel_settings_def)
  have 3: "count_list ?rm ExcelQuit = 0" by (simp add: count_list_0_iff image_iff)
  have "\<exists>r. FinishedSignal r \<in> set evs" unfolding evs by auto
  then show ?thesis unfolding evs count_list_append using 1 2 3 by simp
qed

lemmas run_simps = run_def run_with_def run_try_def clean_temp_files_def record_outcome_def
  file_operation_def encrypt_file_def decrypt_file_def encrypt_try_def decrypt_save_def
  ensure_output_dir_def close_workbook_def call_def calls.simps excel_settings_def
  finished_processing_def ProcessingThread_def mentions_password_def Let_def

lemmas sample_simps = sample_thread_def sample_world_def job_a_def job_b_def job_c_def
  statuses_Cons statuses_append

lemma run_extends: "\<exists>evs. run W th h = h @ evs"
  by (cases rule: run_cases [of W th h]) auto

lemma cancelled_run:
  "run cancelling_world (sample_thread [job_a, job_b, job_c] False) [] =
    ([CoInitialize, Dispatch] @ excel_settings) @
    [OsRemove (ascii ''in'' @ [92] @ ascii ''~$a.xlsx''),
     ProgressSignal 0 3, ProgressSignal 1 3,
     WorkbooksOpen (ascii ''in'' @ [92] @ ascii ''a.xlsx'') (Some (ascii ''pw1'')),
     SetPassword [], SetWritePassword [],
     OsRemove (ascii ''out'' @ [92] @ ascii ''a_new.xlsx''),
     SaveAs (ascii ''out'' @ [92] @ ascii ''a_new.xlsx''),
     WbClose,
     FileStatusSignal (ascii ''a.xlsx'') txt_decrypt_ok True [],
     LogSignal (ascii ''a.xlsx'' @ ascii '': '' @ txt_decrypt_ok @ txt_arrow @ ascii ''a_new.xlsx'') (ascii ''success''),
     LogSignal txt_cancelled (ascii ''warning''),
     ExcelQuit, ProgressSignal 3 3,
     FinishedSignal \<lparr>success_count = 1, total_count = 3, failed_files = []\<rparr>,
     CoUninitialize]"
  by (simp add: run_simps sample_simps cancelling_world_def str_simps)

text \<open>
  Claim C1. At any iteration in which cancellation is not observed and the operation on
  the file fails, by a failure triple or by an exception, the loop goes on with the
  remaining files from a state in which the entry of the file has been appended to
  \<^verbatim>\<open>failed_files\<close> and the success count is unchanged; the entry is in the list at the end
  of the loop; and when cancellation is never observed every file of the list ends in
  one of the two counts.
\<close>

theorem failure_is_recorded_and_batch_continues:
  assumes "\<not> cancel_requested W h"
      and "op (filename job) (path_join W (input_path th) (filename job))
              (path_join W (output_path th) (new_filename job)) (password job) (notes job)
              (h @ [ProgressSignal (i + 1) (length (file_list th))]) = (outcome, h2)"
      and "failed outcome"
  shows "(\<exists>h3. process_files W op th i (job # rest) (count, res, h) =
            process_files W op th (i + 1) rest
              (count,
               res\<lparr>failed_files := failed_files res @
                  [\<lparr>failed_filename = filename job, error = error_reason outcome\<rparr>]\<rparr>,
               h3))
       \<and> \<lparr>failed_filename = filename job, error = error_reason outcome\<rparr>
           \<in> set (failed_files (fst (snd (process_files W op th i (job # rest) (count, res, h)))))
       \<and> ((\<forall>h. \<not> cancel_requested W h) \<longrightarrow>
            fst (process_files W op th i (job # rest) (count, res, h))
              + length (failed_files (fst (snd (process_files W op th i (job # rest) (count, res, h)))))
            = count + length (failed_files res) + length (job # rest))"
proof -
  let ?entry = "\<lparr>failed_filename = filename job, error = error_reason outcome\<rparr>"
  let ?res1 = "res\<lparr>failed_files := failed_files res @ [?entry]\<rparr>"
  obtain c1 r1 h3 where ro: "record_outcome job outcome (count, res, h2) = (c1, r1, h3)"
    by (metis prod.exhaust)
  have c1: "c1 = count" using record_outcome_count [of job outcome count res h2] ro assms(3) by simp
  have r1: "r1 = ?res1" using record_outcome_results [of job outcome count res h2] ro assms(3) by simp
  have step: "process_files W op th i (job # rest) (count, res, h) =
              process_files W op th (i + 1) rest (count, ?res1, h3)"
    using process_files_step [OF assms(1), of op th i job rest count res] assms(2) ro c1 r1 by simp
  from failed_files_grow [of W op th "i + 1" rest count ?res1 h3] obtain more where
    "failed_files (fst (snd (process_files W op th (i + 1) rest (count, ?res1, h3))))
       = failed_files ?res1 @ more" by blast
  then have mem: "?entry \<in> set (failed_files (fst (snd (process_files W op th i (job # rest) (count, res, h)))))"
    using step by simp
  show ?thesis using step mem never_cancelled_all_counted [of W op th i "job # rest" count res h] by blast
qed

lemma corrupt_outcome:
  "file_operation corrupt_world False (filename job_a)
      (path_join corrupt_world (input_path (sample_thread [job_a, job_b] False)) (filename job_a))
      (path_join corrupt_world (output_path (sample_thread [job_a, job_b] False)) (new_filename job_a))
      (password job_a) (notes job_a)
      ([] @ [ProgressSignal (0 + 1) (length (file_list (sample_thread [job_a, job_b] False)))])
   = (Inr (False, txt_cannot_open @ ascii ''corrupt'', txt_open_failed),
      [ProgressSignal 1 2, WorkbooksOpen (ascii ''in'' @ [92] @ ascii ''a.xlsx'') (Some (ascii ''pw1''))])"
  by (simp add: run_simps sample_simps corrupt_world_def str_simps txt_password_def)

lemma raising_outcome:
  "raising_op (filename job_a)
      (path_join sample_world (input_path (sample_thread [job_a, job_b] False)) (filename job_a))
      (path_join sample_world (output_path (sample_thread [job_a, job_b] False)) (new_filename job_a))
      (password job_a) (notes job_a)
      ([] @ [ProgressSignal (0 + 1) (length (file_list (sample_thread [job_a, job_b] False)))])
   = (Inl (OtherError (ascii ''boom'')), [ProgressSignal 1 2])"
  by (simp add: raising_op_def sample_simps ProcessingThread_def)

theorem failure_is_recorded_and_batch_continues_witness:
  "\<lparr>failed_filename = filename job_a, error = txt_cannot_open @ ascii ''corrupt''\<rparr>
     \<in> set (failed_files (fst (snd (process_files corrupt_world (file_operation corrupt_world False)
          (sample_thread [job_a, job_b] False) 0 [job_a, job_b]
          (0, \<lparr>success_count = 0, total_count = 2, failed_files = []\<rparr>, [])))))
   \<and> fst (process_files corrupt_world (file_operation corrupt_world False)
          (sample_thread [job_a, job_b] False) 0 [job_a, job_b]
          (0, \<lparr>success_count = 0, total_count = 2, failed_files = []\<rparr>, []))
      + length (failed_files (fst (snd (process_files corrupt_world (file_operation corrupt_world False)
          (sample_thread [job_a, job_b] False) 0 [job_a, job_b]
          (0, \<lparr>success_count = 0, total_count = 2, failed_files = []\<rparr>, []))))) = 2
   \<and> \<lparr>failed_filename = filename job_a, error = ascii ''boom''\<rparr>
     \<in> set (failed_files (fst (snd (process_files sample_world raising_op
          (sample_thread [job_a, job_b] False) 0 [job_a, job_b]
          (0, \<lparr>success_count = 0, total_count = 2, failed_files = []\<rparr>, [])))))"
proof -
  have nc: "\<not> cancel_requested corrupt_world []" "\<forall>h. \<not> cancel_requested corrupt_world h"
    "\<not> cancel_requested sample_world []"
    by (simp_all add: corrupt_world_def sample_world_def)
  have f: "failed (Inr (False, txt_cannot_open @ ascii ''corrupt'', txt_open_failed))"
    "failed (Inl (OtherError (ascii ''boom'')))" by simp_all
  note t1 = failure_is_recorded_and_batch_continues [where W = corrupt_world and h = "[]"
      and op = "file_operation corrupt_world False" and job = job_a
      and th = "sample_thread [job_a, job_b] False" and i = 0 and rest = "[job_b]" and count = 0
      and res = "\<lparr>success_count = 0, total_count = 2, failed_files = []\<rparr>",
      OF nc(1) corrupt_outcome f(1)]
  note t2 = failure_is_recorded_and_batch_continues [where W = sample_world and h = "[]"
      and op = raising_op and job = job_a
      and th = "sample_thread [job_a, job_b] False" and i = 0 and rest = "[job_b]" and count = 0
      and res = "\<lparr>success_count = 0, total_count = 2, failed_files = []\<rparr>",
      OF nc(3) raising_outcome f(2)]
  show ?thesis
    using nc(2) t1 t2 by simp
qed

theorem counts_partition_the_attempted_files_witness:
  "run cancelling_world (sample_thread [job_a, job_b, job_c] False) []
     = [] @ run cancelling_world (sample_thread [job_a, job_b, job_c] False) []
   \<and> FinishedSignal \<lparr>success_count = 1, total_count = 3, failed_files = []\<rparr>
       \<in> set (run cancelling_world (sample_thread [job_a, job_b, job_c] False) [])
   \<and> statuses (run cancelling_world (sample_thread [job_a, job_b, job_c] False) []) = [(ascii ''a.xlsx'', True)]
   \<and> success_count \<lparr>success_count = 1, total_count = 3, failed_files = []\<rparr>
       + length (failed_files \<lparr>success_count = 1, total_count = 3, failed_files = []\<rparr>)
       + (length (file_list (sample_thread [job_a, job_b, job_c] False))
          - length (statuses (run cancelling_world (sample_thread [job_a, job_b, job_c] False) [])))
       = total_count \<lparr>success_count = 1, total_count = 3, failed_files = []\<rparr>"
proof -
  let ?run = "run cancelling_world (sample_thread [job_a, job_b, job_c] False) []"
  have a: "?run = [] @ ?run" by simp
  have b: "FinishedSignal \<lparr>success_count = 1, total_count = 3, failed_files = []\<rparr> \<in> set ?run"
    by (simp add: cancelled_run)
  have c: "statuses ?run = [(ascii ''a.xlsx'', True)]"
    by (simp add: cancelled_run excel_settings_def statuses_Cons statuses_append)
  show ?thesis
    using a b c counts_partition_the_attempted_files [OF a b] by blast
qed



text \<open>
  The case that the amended claim leaves out: with the output folder equal to the input
  folder and an empty suffix, the output path of a job is its input document, and the
  run saves over it (and, when decrypting, first asks to remove it).
\<close>

lemma same_folder_run_saves_over_input:
  "path_join sample_world (output_path (same_folder_thread enc)) (new_filename job_same)
     = path_join sample_world (input_path (same_folder_thread enc)) (filename job_same)
   \<and> SaveAs (path_join sample_world (input_path (same_folder_thread True)) (filename job_same))
       \<in> set (run sample_world (same_folder_thread True) [])
   \<and> OsRemove (path_join sample_world (input_path (same_folder_thread False)) (filename job_same))
       \<in> set (run sample_world (same_folder_thread False) [])"
  by (simp add: run_simps sample_simps same_folder_thread_def job_same_def str_simps)


lemma faulted_run:
  "run unlistable_world (sample_thread [job_a] True) [] =
    ([CoInitialize, Dispatch] @ excel_settings) @
    [LogSignal (txt_thread_error @ ascii ''The directory name is invalid'') (ascii ''error''),
     LogSignal (ascii ''Traceback: '' @ ascii ''The directory name is invalid'') (ascii ''error''),
     CoUninitialize]"
  by (simp add: run_simps sample_simps unlistable_world_def)

text \<open>
  Claim C9 fails on the code. \<^verbatim>\<open>excel.Quit()\<close> stands in the \<^verbatim>\<open>try\<close> block of \<^verbatim>\<open>run\<close>,
  after the loop; the \<^verbatim>\<open>finally\<close> clause only calls \<^verbatim>\<open>pythoncom.CoUninitialize()\<close>.
  When \<^verbatim>\<open>os.listdir\<close> raises in \<^verbatim>\<open>clean_temp_files\<close>, Excel has been started and is
  never asked to quit.
\<close>

theorem fault_in_run_skips_excel_quit:
  "listdir unlistable_world ([CoInitialize, Dispatch] @ excel_settings) (input_path (sample_thread [job_a] True))
     = Inl (OtherError (ascii ''The directory name is invalid''))
   \<and> Dispatch \<in> set (run unlistable_world (sample_thread [job_a] True) [])
   \<and> ExcelQuit \<notin> set (run unlistable_world (sample_thread [job_a] True) [])
   \<and> CoUninitialize \<in> set (run unlistable_world (sample_thread [job_a] True) [])"
  by (simp add: faulted_run) (simp add: excel_settings_def unlistable_world_def sample_world_def)

lemma german_text: "\<not> (py_in (ascii ''password'') (lower german_message) \<or> py_in txt_password german_message)"
  by (simp add: german_message_def txt_password_def str_simps)

lemma english_text:
  "py_in (ascii ''password'') (lower (ascii ''The password you supplied is not correct.''))"
  by (simp add: str_simps)

text \<open>
  Claim C6, as amended. When the input exists and \<^verbatim>\<open>Workbooks.Open\<close> raises,
  \<^verbatim>\<open>decrypt_file\<close> returns the wrong-password triple if the text of the exception has
  \<^verbatim>\<open>password\<close> (in any case) or the Chinese word for it, and otherwise the triple of a
  generic failure to open, with the first fifty characters of the text. A missing input
  gives the missing-input triple. The three status texts differ from each other whatever
  the text of the exception, and \<^verbatim>\<open>run\<close> stores the status of a failed file as its
  error.
\<close>

theorem open_failure_is_classified_by_its_text:
  assumes "path_exists W h inp"
      and "ensure_output_dir W outp h = (None, h1)"
      and "call W (WorkbooksOpen inp (if pwd \<noteq> [] then Some pwd else None)) h1 = (Some e, h2)"
  shows "decrypt_file W fname inp outp pwd nts h =
           (if py_in (ascii ''password'') (lower (str_exn e)) \<or> py_in txt_password (str_exn e)
            then ((False, txt_wrong_password, txt_password_incorrect), h2)
            else ((False, txt_cannot_open @ take 50 (str_exn e), txt_open_failed), h2))
       \<and> (\<forall>inp'. \<not> path_exists W h inp' \<longrightarrow>
              decrypt_file W fname inp' outp pwd nts h = ((False, txt_input_missing, txt_path_error), h))
       \<and> txt_wrong_password \<noteq> txt_input_missing
       \<and> (\<forall>m. txt_wrong_password \<noteq> txt_cannot_open @ m)
       \<and> (\<forall>m. txt_input_missing \<noteq> txt_cannot_open @ m)
       \<and> (\<forall>status n. failed_files (fst (snd (record_outcome job (Inr (False, status, n)) (count, res, h2))))
              = failed_files res @ [\<lparr>failed_filename = filename job, error = status\<rparr>])"
proof -
  have 1: "decrypt_file W fname inp outp pwd nts h =
           (if py_in (ascii ''password'') (lower (str_exn e)) \<or> py_in txt_password (str_exn e)
            then ((False, txt_wrong_password, txt_password_incorrect), h2)
            else ((False, txt_cannot_open @ take 50 (str_exn e), txt_open_failed), h2))"
    using assms by (simp add: decrypt_file_def mentions_password_def)
  have 2: "decrypt_file W fname inp' outp pwd nts h = ((False, txt_input_missing, txt_path_error), h)"
    if "\<not> path_exists W h inp'" for inp'
    using that by (simp add: decrypt_file_def)
  have 3: "txt_wrong_password \<noteq> txt_input_missing"
    by (simp add: txt_wrong_password_def txt_input_missing_def)
  have 4: "txt_wrong_password \<noteq> txt_cannot_open @ m" for m
    by (simp add: txt_wrong_password_def txt_cannot_open_def)
  have 5: "txt_input_missing \<noteq> txt_cannot_open @ m" for m
    by (simp add: txt_input_missing_def txt_cannot_open_def)
  have 6: "failed_files (fst (snd (record_outcome job (Inr (False, status, n)) (count, res, h2))))
              = failed_files res @ [\<lparr>failed_filename = filename job, error = status\<rparr>]" for status n
    by (simp add: record_outcome_results)
  show ?thesis using 1 2 3 4 5 6 by blast
qed

theorem open_failure_is_classified_by_its_text_witness:
  "path_exists wrong_password_world [] (ascii ''in'' @ [92] @ ascii ''a.xlsx'')
   \<and> decrypt_file wrong_password_world (ascii ''a.xlsx'') (ascii ''in'' @ [92] @ ascii ''a.xlsx'')
        (ascii ''out'' @ [92] @ ascii ''a_new.xlsx'') (ascii ''guess'') [] []
       = ((False, txt_wrong_password, txt_password_incorrect),
          [WorkbooksOpen (ascii ''in'' @ [92] @ ascii ''a.xlsx'') (Some (ascii ''guess''))])
   \<and> path_exists german_world [] (ascii ''in'' @ [92] @ ascii ''a.xlsx'')
   \<and> decrypt_file german_world (ascii ''a.xlsx'') (ascii ''in'' @ [92] @ ascii ''a.xlsx'')
        (ascii ''out'' @ [92] @ ascii ''a_new.xlsx'') (ascii ''guess'') [] []
       = ((False, txt_cannot_open @ take 50 german_message, txt_open_failed),
          [WorkbooksOpen (ascii ''in'' @ [92] @ ascii ''a.xlsx'') (Some (ascii ''guess''))])"
proof -
  let ?inp = "ascii ''in'' @ [92] @ ascii ''a.xlsx''" and ?outp = "ascii ''out'' @ [92] @ ascii ''a_new.xlsx''"
  have a: "path_exists wrong_password_world [] ?inp" "path_exists german_world [] ?inp"
    by (simp_all add: wrong_password_world_def german_world_def sample_world_def)
  have b: "ensure_output_dir wrong_password_world ?outp [] = (None, [])"
    "ensure_output_dir german_world ?outp [] = (None, [])"
    by (simp_all add: ensure_output_dir_def wrong_password_world_def german_world_def sample_world_def)
  have c: "call wrong_password_world
             (WorkbooksOpen ?inp (if ascii ''guess'' \<noteq> [] then Some (ascii ''guess'') else None)) []
           = (Some (OtherError (ascii ''The password you supplied is not correct.'')),
              [WorkbooksOpen ?inp (Some (ascii ''guess''))])"
    "call german_world
             (WorkbooksOpen ?inp (if ascii ''guess'' \<noteq> [] then Some (ascii ''guess'') else None)) []
           = (Some (OtherError german_message), [WorkbooksOpen ?inp (Some (ascii ''guess''))])"
    by (simp_all add: call_def wrong_password_world_def german_world_def sample_world_def ascii_def)
  show ?thesis
    using a german_text english_text
      open_failure_is_classified_by_its_text [OF a(1) b(1) c(1), of "ascii ''a.xlsx''" "[]"]
      open_failure_is_classified_by_its_text [OF a(2) b(2) c(2), of "ascii ''a.xlsx''" "[]"]
    by simp
qed

text \<open>
  Claim C6 as it is written fails: a wrong password is recognised by the words of the
  message only. In the sample world where Excel rejects the password with its German
  message, the file is recorded with the generic failure to open.
\<close>

theorem rejected_password_in_german_counterexample:
  "raises german_world [] (WorkbooksOpen (ascii ''in'' @ [92] @ ascii ''a.xlsx'') (Some (ascii ''guess'')))
     = Some (OtherError german_message)
   \<and> fst (decrypt_file german_world (ascii ''a.xlsx'') (ascii ''in'' @ [92] @ ascii ''a.xlsx'')
        (ascii ''out'' @ [92] @ ascii ''a_new.xlsx'') (ascii ''guess'') [] [])
       = (False, txt_cannot_open @ take 50 german_message, txt_open_failed)
   \<and> fst (decrypt_file german_world (ascii ''a.xlsx'') (ascii ''in'' @ [92] @ ascii ''a.xlsx'')
        (ascii ''out'' @ [92] @ ascii ''a_new.xlsx'') (ascii ''guess'') [] [])
       \<noteq> (False, txt_wrong_password, txt_password_incorrect)"
proof -
  have 1: "raises german_world [] (WorkbooksOpen (ascii ''in'' @ [92] @ ascii ''a.xlsx'') (Some (ascii ''guess'')))
     = Some (OtherError german_message)"
    by (simp add: german_world_def sample_world_def)
  have 2: "fst (decrypt_file german_world (ascii ''a.xlsx'') (ascii ''in'' @ [92] @ ascii ''a.xlsx'')
        (ascii ''out'' @ [92] @ ascii ''a_new.xlsx'') (ascii ''guess'') [] [])
       = (False, txt_cannot_open @ take 50 german_message, txt_open_failed)"
    using german_text
    by (simp add: decrypt_file_def ensure_output_dir_def call_def mentions_password_def Let_def
        german_world_def sample_world_def ascii_def)
  have 3: "txt_cannot_open @ take 50 german_message \<noteq> txt_wrong_password"
    by (simp add: txt_wrong_password_def txt_cannot_open_def)
  show ?thesis using 1 2 3 by simp
qed



section \<open>The window: proofs\<close>

lemma validate_selection_rejects:
  assumes "encrypt_radio g" "get_selected_files g = Inr selected"
      and "\<exists>info \<in> set selected. password info = []"
  shows "\<exists>msg evs. validate_selection W g h = (Inr (False, msg), h @ evs)
           \<and> set evs \<subseteq> {OsMakedirs (output_folder_edit g)}"
proof -
  have ne: "selected \<noteq> []" using assms(3) by auto
  have em: "map filename (filter (\<lambda>info. password info = []) selected) \<noteq> []"
    using assms(3) by (auto simp: filter_empty_conv)
  show ?thesis
  proof (cases "output_folder_edit g = []")
    case True
    then have "validate_selection W g h = (Inr (False, txt_set_output_folder), h @ [])"
      using assms(2) ne by (simp add: validate_selection_def)
    then show ?thesis by (metis empty_set empty_subsetI)
  next
    case False
    show ?thesis
    proof (cases "raises W h (OsMakedirs (output_folder_edit g))")
      case (Some e)
      then have "validate_selection W g h
          = (Inr (False, txt_cannot_create_output @ str_exn e), h @ [OsMakedirs (output_folder_edit g)])"
        using assms(2) ne False by (simp add: validate_selection_def call_def)
      then show ?thesis by (intro exI [of _ "txt_cannot_create_output @ str_exn e"]
            exI [of _ "[OsMakedirs (output_folder_edit g)]"]) simp
    next
      case None
      then have "validate_selection W g h
          = (Inr (False, missing_password_message (map filename (filter (\<lambda>info. password info = []) selected))),
             h @ [OsMakedirs (output_folder_edit g)])"
        using assms(1,2) ne False em by (simp add: validate_selection_def call_def Let_def)
      then show ?thesis
        by (intro exI [of _ "missing_password_message (map filename (filter (\<lambda>info. password info = []) selected))"]
            exI [of _ "[OsMakedirs (output_folder_edit g)]"]) simp
    qed
  qed
qed

lemma start_processing_rejects:
  assumes "encrypt_radio g" "get_selected_files g = Inr selected"
      and "\<exists>info \<in> set selected. password info = []"
  shows "\<exists>evs. start_processing W g h = (g, Inr None, h @ evs)
           \<and> (\<forall>ev \<in> set evs. ev = Print (input_folder_edit g) \<or> ev = OsMakedirs (output_folder_edit g)
                  \<or> (\<exists>m. ev = MessageBoxWarning txt_warning_title m))"
proof (cases "is_processing g")
  case True
  then have "start_processing W g h = (g, Inr None, h @ [MessageBoxWarning txt_warning_title txt_busy])"
    by (simp add: start_processing_def)
  then show ?thesis by (intro exI [of _ "[MessageBoxWarning txt_warning_title txt_busy]"]) simp
next
  case False
  let ?h1 = "h @ [Print (input_folder_edit g)]"
  show ?thesis
  proof (cases "path_exists W ?h1 (input_folder_edit g)")
    case ne: False
    then have "start_processing W g h
        = (g, Inr None, h @ [Print (input_folder_edit g), MessageBoxWarning txt_warning_title txt_invalid_input_folder])"
      using False by (simp add: start_processing_def Let_def)
    then show ?thesis
      by (intro exI [of _ "[Print (input_folder_edit g), MessageBoxWarning txt_warning_title txt_invalid_input_folder]"])
         simp
  next
    case True
    from validate_selection_rejects [OF assms, of W ?h1] obtain msg evs where
      v: "validate_selection W g ?h1 = (Inr (False, msg), ?h1 @ evs)"
         "set evs \<subseteq> {OsMakedirs (output_folder_edit g)}" by blast
    have "start_processing W g h
        = (g, Inr None, h @ (Print (input_folder_edit g) # evs @ [MessageBoxWarning txt_warning_title msg]))"
      using False True v(1) by (simp add: start_processing_def Let_def)
    moreover have "\<forall>ev \<in> set (Print (input_folder_edit g) # evs @ [MessageBoxWarning txt_warning_title msg]).
        ev = Print (input_folder_edit g) \<or> ev = OsMakedirs (output_folder_edit g)
                  \<or> (\<exists>m. ev = MessageBoxWarning txt_warning_title m)"
      using v(2) by auto
    ultimately show ?thesis by blast
  qed
qed

text \<open>
  Claim C3. In encrypt mode, when a selected file has an empty password,
  \<^verbatim>\<open>validate_selection\<close> answers \<^verbatim>\<open>False\<close>, \<^verbatim>\<open>start_processing\<close> leaves the window as it
  is and starts no thread, and the whole submission adds nothing to the history but the
  \<^verbatim>\<open>print\<close> of the input folder, the creation of the output folder and a warning box:
  no workbook is opened, nothing is saved or removed, and no file gets a status.
\<close>

theorem encrypt_with_empty_password_does_not_start:
  assumes "encrypt_radio g" "get_selected_files g = Inr selected"
      and "\<exists>info \<in> set selected. password info = []"
  shows "(\<forall>h'. \<exists>msg h''. validate_selection W g h' = (Inr (False, msg), h''))
       \<and> fst (start_processing W g h) = g
       \<and> fst (snd (start_processing W g h)) = Inr None
       \<and> (\<exists>evs. submit W g h = h @ evs
             \<and> (\<forall>ev \<in> set evs. ev = Print (input_folder_edit g) \<or> ev = OsMakedirs (output_folder_edit g)
                    \<or> (\<exists>m. ev = MessageBoxWarning txt_warning_title m)))"
proof -
  from start_processing_rejects [OF assms, of W h] obtain evs where
    s: "start_processing W g h = (g, Inr None, h @ evs)"
       "\<forall>ev \<in> set evs. ev = Print (input_folder_edit g) \<or> ev = OsMakedirs (output_folder_edit g)
                  \<or> (\<exists>m. ev = MessageBoxWarning txt_warning_title m)" by blast
  have "submit W g h = h @ evs" using s(1) by (simp add: submit_def)
  with s validate_selection_rejects [OF assms, of W] show ?thesis by fastforce
qed

lemma sample_selection:
  "get_selected_files sample_gui = Inr [job_a, \<lparr>filename = ascii ''b.xlsx'', new_filename = ascii ''b_new.xlsx'',
      password = [], notes = []\<rparr>]"
  by (simp add: get_selected_files_def sample_gui_def job_a_def)

theorem encrypt_with_empty_password_does_not_start_witness:
  "encrypt_radio sample_gui
   \<and> fst (snd (start_processing sample_world sample_gui [])) = Inr None
   \<and> submit sample_world sample_gui [] =
       [Print (ascii ''in''), OsMakedirs (ascii ''out''),
        MessageBoxWarning txt_warning_title (txt_files_without_password @ ascii ''b.xlsx'')]"
proof -
  have a: "encrypt_radio sample_gui" by (simp add: sample_gui_def)
  have b: "\<exists>info \<in> set [job_a, \<lparr>filename = ascii ''b.xlsx'', new_filename = ascii ''b_new.xlsx'',
      password = [], notes = []\<rparr>]. password info = []" by simp
  have c: "submit sample_world sample_gui [] =
       [Print (ascii ''in''), OsMakedirs (ascii ''out''),
        MessageBoxWarning txt_warning_title (txt_files_without_password @ ascii ''b.xlsx'')]"
    by (simp add: submit_def start_processing_def validate_selection_def sample_selection call_def
        Let_def job_a_def)
       (simp add: sample_gui_def sample_world_def ascii_def missing_password_message_def)
  show ?thesis
    using a c encrypt_with_empty_password_does_not_start [OF a sample_selection b, of sample_world "[]"]
    by simp
qed

end
